theory Spec2Isabelle
  imports Complex_Main "HOL-Library.Log_Nat"
begin

section \<open>The grading, filtering and analytics core of the moderator dashboard\<close>

text \<open>
  The development embeds the pure functions of \<^verbatim>\<open>src/components/ModeratorDashboard.tsx\<close>:
  \<^verbatim>\<open>normalizeToNumberOrString\<close>, \<^verbatim>\<open>checkAnswer\<close>, \<^verbatim>\<open>calculateScore\<close>,
  \<^verbatim>\<open>filteredResponses\<close>, \<^verbatim>\<open>getAnalytics\<close> and the \<^verbatim>\<open>sortedAnswers\<close> expression.
  The functions are written in TypeScript and lean on the language's built-in conversions
  (\<^verbatim>\<open>String\<close>, \<^verbatim>\<open>Number\<close>, \<^verbatim>\<open>parseInt\<close>, truthiness, property lookup on plain objects),
  so the first sections model those built-ins as ECMAScript defines them.

  Conventions.
  \<^item> A JavaScript string is modelled as a \<^typ>\<open>string\<close>; a \<^typ>\<open>char\<close> stands for the code
    point of the same number (U+0000 to U+00FF). The theorems therefore speak about
    strings over that range.
  \<^item> A JavaScript number is a binary64 value. Finite values are carried as the rational
    they denote, every arithmetic result is rounded to the nearest binary64 value (ties to
    even), and the two zeros are identified: the program never divides by a zero and never
    uses \<^verbatim>\<open>Object.is\<close>, so it cannot tell them apart.
\<close>

subsection \<open>Strings\<close>

text \<open>White space as \<^verbatim>\<open>String.prototype.trim\<close>, the regular expression class \<^verbatim>\<open>\s\<close> and
  the numeric-string grammar understand it (tab, line feed, vertical tab, form feed, carriage
  return, space, no-break space).\<close>

definition is_ws :: "char \<Rightarrow> bool" where
  "is_ws c \<longleftrightarrow> c = CHR 0x09 \<or> c = CHR 0x0A \<or> c = CHR 0x0B \<or> c = CHR 0x0C
     \<or> c = CHR 0x0D \<or> c = CHR '' '' \<or> c = CHR 0xA0"

definition trim :: "string \<Rightarrow> string" where
  "trim s = rev (dropWhile is_ws (rev (dropWhile is_ws s)))"

definition lower_char :: "char \<Rightarrow> char" where
  "lower_char c = (let n = (of_char c :: nat) in
     if (65 \<le> n \<and> n \<le> 90) \<or> (192 \<le> n \<and> n \<le> 222 \<and> n \<noteq> 215) then char_of (n + 32) else c)"

definition toLowerCase :: "string \<Rightarrow> string" where
  "toLowerCase s = map lower_char s"

text \<open>\<^verbatim>\<open>str.split(/[\s-]+/)\<close>: the pieces between maximal runs of white space and hyphens.
  A separator at either end leaves an empty piece there; the empty string gives one empty
  piece.\<close>

definition is_sep :: "char \<Rightarrow> bool" where
  "is_sep c \<longleftrightarrow> is_ws c \<or> c = CHR ''-''"

fun split_sep :: "string \<Rightarrow> string list" where
  "split_sep [] = [[]]"
| "split_sep [c] = (if is_sep c then [[], []] else [[c]])"
| "split_sep (c # d # cs) =
     (if is_sep c then (if is_sep d then split_sep (d # cs) else [] # split_sep (d # cs))
      else (case split_sep (d # cs) of t # ts \<Rightarrow> (c # t) # ts | [] \<Rightarrow> [[c]]))"

fun join :: "string \<Rightarrow> string list \<Rightarrow> string" where
  "join sep [] = []"
| "join sep [x] = x"
| "join sep (x # y # ys) = x @ sep @ join sep (y # ys)"

definition is_digit :: "char \<Rightarrow> bool" where
  "is_digit c \<longleftrightarrow> 48 \<le> (of_char c :: nat) \<and> (of_char c :: nat) \<le> 57"

text \<open>The value of a digit in a given radix (letters in either case count from ten), if it
  is one.\<close>

definition digit_value :: "nat \<Rightarrow> char \<Rightarrow> nat option" where
  "digit_value radix c = (let n = (of_char c :: nat);
       v = (if 48 \<le> n \<and> n \<le> 57 then Some (n - 48)
            else if 97 \<le> n \<and> n \<le> 122 then Some (n - 87)
            else if 65 \<le> n \<and> n \<le> 90 then Some (n - 55)
            else None)
     in case v of Some d \<Rightarrow> (if d < radix then Some d else None) | None \<Rightarrow> None)"

definition is_radix_digit :: "nat \<Rightarrow> char \<Rightarrow> bool" where
  "is_radix_digit radix c \<longleftrightarrow> digit_value radix c \<noteq> None"

definition radix_val :: "nat \<Rightarrow> string \<Rightarrow> int" where
  "radix_val radix ds =
     foldl (\<lambda>a c. a * int radix + (case digit_value radix c of Some d \<Rightarrow> int d | None \<Rightarrow> 0)) 0 ds"

text \<open>The decimal digits of a non-negative integer.\<close>

function int_digits :: "int \<Rightarrow> string" where
  "int_digits n = (if n < 10 then [char_of (48 + n)] else int_digits (n div 10) @ [char_of (48 + n mod 10)])"
  by pat_completeness auto
termination
  by (relation "measure nat") auto

declare int_digits.simps [simp del]

subsection \<open>Numbers\<close>

datatype jsnum = NaN | PosInf | NegInf | Fin rat

definition pow2 :: "int \<Rightarrow> rat" where
  "pow2 e = (if 0 \<le> e then 2 ^ nat e else 1 / 2 ^ nat (- e))"

definition pow10 :: "int \<Rightarrow> rat" where
  "pow10 e = (if 0 \<le> e then 10 ^ nat e else 1 / 10 ^ nat (- e))"

definition round_half_even :: "rat \<Rightarrow> int" where
  "round_half_even x = (let f = \<lfloor>x\<rfloor>; d = x - of_int f in
     if d < 1 / 2 then f else if 1 / 2 < d then f + 1 else if even f then f else f + 1)"

text \<open>\<open>ilog2 q\<close> is the exponent \<open>k\<close> with \<open>2^k \<le> q < 2^(k+1)\<close>, for positive \<open>q\<close>.\<close>

definition ilog2 :: "rat \<Rightarrow> int" where
  "ilog2 q = (let (n, d) = quotient_of q; k = bitlen n - bitlen d in
     if pow2 k \<le> q then k else k - 1)"

text \<open>Rounding a positive rational to binary64: the significand \<open>m\<close> has 53 bits, the
  exponent \<open>e\<close> of its last bit is at least \<open>-1074\<close> (subnormal numbers), and a result
  \<open>m * 2^e\<close> of \<open>2^1024\<close> or more is infinity.\<close>

definition fl_pos :: "rat \<Rightarrow> jsnum" where
  "fl_pos q = (let e = max (ilog2 q - 52) (- 1074);
                   m = round_half_even (q / pow2 e)
               in if 971 < e \<or> (e = 971 \<and> 2 ^ 53 \<le> m) then PosInf else Fin (of_int m * pow2 e))"

definition js_neg :: "jsnum \<Rightarrow> jsnum" where
  "js_neg x = (case x of NaN \<Rightarrow> NaN | PosInf \<Rightarrow> NegInf | NegInf \<Rightarrow> PosInf | Fin q \<Rightarrow> Fin (- q))"

definition fl :: "rat \<Rightarrow> jsnum" where
  "fl q = (if q = 0 then Fin 0 else if q < 0 then js_neg (fl_pos (- q)) else fl_pos q)"

definition js_add :: "jsnum \<Rightarrow> jsnum \<Rightarrow> jsnum" where
  "js_add x y = (case (x, y) of
       (NaN, _) \<Rightarrow> NaN | (_, NaN) \<Rightarrow> NaN
     | (PosInf, NegInf) \<Rightarrow> NaN | (NegInf, PosInf) \<Rightarrow> NaN
     | (PosInf, _) \<Rightarrow> PosInf | (_, PosInf) \<Rightarrow> PosInf
     | (NegInf, _) \<Rightarrow> NegInf | (_, NegInf) \<Rightarrow> NegInf
     | (Fin a, Fin b) \<Rightarrow> fl (a + b))"

definition js_sign_inf :: "bool \<Rightarrow> jsnum" where
  "js_sign_inf negative = (if negative then NegInf else PosInf)"

definition js_is_neg :: "jsnum \<Rightarrow> bool" where
  "js_is_neg x = (case x of NegInf \<Rightarrow> True | Fin q \<Rightarrow> q < 0 | _ \<Rightarrow> False)"

definition js_is_inf :: "jsnum \<Rightarrow> bool" where
  "js_is_inf x \<longleftrightarrow> x = PosInf \<or> x = NegInf"

definition js_mul :: "jsnum \<Rightarrow> jsnum \<Rightarrow> jsnum" where
  "js_mul x y =
     (if x = NaN \<or> y = NaN then NaN
      else if js_is_inf x \<or> js_is_inf y then
        (if x = Fin 0 \<or> y = Fin 0 then NaN else js_sign_inf (js_is_neg x \<noteq> js_is_neg y))
      else (case (x, y) of (Fin a, Fin b) \<Rightarrow> fl (a * b) | _ \<Rightarrow> NaN))"

text \<open>Division. A zero divisor is taken as the positive zero; every division of the program
  is guarded by a test that its divisor is positive.\<close>

definition js_div :: "jsnum \<Rightarrow> jsnum \<Rightarrow> jsnum" where
  "js_div x y =
     (if x = NaN \<or> y = NaN then NaN
      else if js_is_inf x then (if js_is_inf y then NaN else js_sign_inf (js_is_neg x \<noteq> js_is_neg y))
      else if js_is_inf y then Fin 0
      else (case (x, y) of
              (Fin a, Fin b) \<Rightarrow> (if b = 0 then (if a = 0 then NaN else js_sign_inf (a < 0)) else fl (a / b))
            | _ \<Rightarrow> NaN))"

text \<open>The relational operators on numbers; every comparison with \<open>NaN\<close> is false.\<close>

definition js_lt :: "jsnum \<Rightarrow> jsnum \<Rightarrow> bool" where
  "js_lt x y = (case (x, y) of
       (NaN, _) \<Rightarrow> False | (_, NaN) \<Rightarrow> False
     | (_, NegInf) \<Rightarrow> False | (NegInf, _) \<Rightarrow> True
     | (PosInf, _) \<Rightarrow> False | (_, PosInf) \<Rightarrow> True
     | (Fin a, Fin b) \<Rightarrow> a < b)"

definition js_gt :: "jsnum \<Rightarrow> jsnum \<Rightarrow> bool" where
  "js_gt x y = js_lt y x"

definition js_ge :: "jsnum \<Rightarrow> jsnum \<Rightarrow> bool" where
  "js_ge x y \<longleftrightarrow> x \<noteq> NaN \<and> y \<noteq> NaN \<and> \<not> js_lt x y"

text \<open>\<^verbatim>\<open>Math.round\<close>: the nearest integer, a half going up.\<close>

definition math_round :: "jsnum \<Rightarrow> jsnum" where
  "math_round x = (case x of Fin q \<Rightarrow> Fin (of_int \<lfloor>q + 1 / 2\<rfloor>) | _ \<Rightarrow> x)"

subsection \<open>\<^verbatim>\<open>Number(string)\<close>\<close>

text \<open>The numeric-string grammar of ECMAScript: surrounding white space is dropped; the empty
  string is zero; \<^verbatim>\<open>0x\<close>, \<^verbatim>\<open>0o\<close> and \<^verbatim>\<open>0b\<close> introduce unsigned hexadecimal, octal and
  binary integers; otherwise an optional sign is followed by \<^verbatim>\<open>Infinity\<close> or by a decimal
  literal (digits, an optional fraction, an optional exponent). Everything else is \<open>NaN\<close>.\<close>

definition exponent_part :: "string \<Rightarrow> int option" where
  "exponent_part r = (case r of
       [] \<Rightarrow> Some 0
     | c # ds \<Rightarrow>
         if c = CHR ''e'' \<or> c = CHR ''E'' then
           (let (negative, ds') =
                  (case ds of
                     s # t \<Rightarrow> if s = CHR ''-'' then (True, t) else if s = CHR ''+'' then (False, t) else (False, ds)
                   | [] \<Rightarrow> (False, ds))
            in if ds' \<noteq> [] \<and> list_all is_digit ds'
               then Some (if negative then - radix_val 10 ds' else radix_val 10 ds')
               else None)
         else None)"

definition unsigned_decimal :: "string \<Rightarrow> rat option" where
  "unsigned_decimal u =
     (let ip = takeWhile is_digit u; r1 = dropWhile is_digit u;
          (fp, r2) = (case r1 of
                        c # r \<Rightarrow> if c = CHR ''.'' then (takeWhile is_digit r, dropWhile is_digit r) else ([], r1)
                      | [] \<Rightarrow> ([], []))
      in if ip = [] \<and> fp = [] then None
         else (case exponent_part r2 of
                 None \<Rightarrow> None
               | Some ex \<Rightarrow> Some (of_int (radix_val 10 (ip @ fp)) * pow10 (ex - int (length fp)))))"

definition str_decimal :: "string \<Rightarrow> jsnum" where
  "str_decimal t =
     (let (negative, u) =
            (case t of
               c # r \<Rightarrow> if c = CHR ''-'' then (True, r) else if c = CHR ''+'' then (False, r) else (False, t)
             | [] \<Rightarrow> (False, t))
      in if u = ''Infinity'' then js_sign_inf negative
         else (case unsigned_decimal u of
                 None \<Rightarrow> NaN
               | Some q \<Rightarrow> if negative then js_neg (fl q) else fl q))"

definition radix_literal :: "string \<Rightarrow> jsnum option" where
  "radix_literal t = (case t of
       z # x # ds \<Rightarrow>
         (let radix = (if x = CHR ''x'' \<or> x = CHR ''X'' then 16
                       else if x = CHR ''o'' \<or> x = CHR ''O'' then 8
                       else if x = CHR ''b'' \<or> x = CHR ''B'' then 2 else (0::nat))
          in if z = CHR ''0'' \<and> radix \<noteq> 0 then
               (if ds \<noteq> [] \<and> list_all (is_radix_digit radix) ds
                then Some (fl (of_int (radix_val radix ds))) else Some NaN)
             else None)
     | _ \<Rightarrow> None)"

definition toNumber :: "string \<Rightarrow> jsnum" where
  "toNumber s = (let t = trim s in
     if t = [] then Fin 0
     else (case radix_literal t of Some v \<Rightarrow> v | None \<Rightarrow> str_decimal t))"

subsection \<open>\<^verbatim>\<open>parseInt(string)\<close>\<close>

text \<open>Without a radix argument: leading white space and a sign are skipped, \<^verbatim>\<open>0x\<close> selects
  radix 16, and the longest prefix of digits is read; no digit at all gives \<open>NaN\<close>.\<close>

definition parseInt :: "string \<Rightarrow> jsnum" where
  "parseInt s =
     (let t = dropWhile is_ws s;
          (negative, u) =
            (case t of
               c # r \<Rightarrow> if c = CHR ''-'' then (True, r) else if c = CHR ''+'' then (False, r) else (False, t)
             | [] \<Rightarrow> (False, t));
          (radix, v) =
            (case u of
               z # x # r \<Rightarrow> if z = CHR ''0'' \<and> (x = CHR ''x'' \<or> x = CHR ''X'') then (16, r) else (10, u)
             | _ \<Rightarrow> (10::nat, u));
          z = takeWhile (is_radix_digit radix) v
      in if z = [] then NaN
         else if negative then js_neg (fl (of_int (radix_val radix z))) else fl (of_int (radix_val radix z)))"

subsection \<open>\<^verbatim>\<open>String(number)\<close>\<close>

text \<open>\<open>ilog10 q\<close> is the exponent \<open>k\<close> with \<open>10^k \<le> q < 10^(k+1)\<close>, for positive \<open>q\<close>: the
  binary exponent gives an estimate, corrected by one comparison on each side.\<close>

definition ilog10 :: "rat \<Rightarrow> int" where
  "ilog10 q = (let g = (ilog2 q * 30103) div 100000 in
     if q < pow10 g then g - 1 else if pow10 (g + 1) \<le> q then g + 1 else g)"

text \<open>The shortest decimal that reads back as \<open>q\<close>: for \<open>k = 1, 2, \<dots>\<close> digits, the two
  \<open>k\<close>-digit decimals around \<open>q\<close> are tried; of those that round to \<open>q\<close> the closer one is
  taken (the even one on a tie). Seventeen digits always suffice. The result \<open>(s, e)\<close>
  denotes \<open>s * 10^e\<close>.\<close>

fun shortest_digits :: "rat \<Rightarrow> int \<Rightarrow> nat \<Rightarrow> nat \<Rightarrow> int \<times> int" where
  "shortest_digits q n fuel k =
     (let e = n - int k; t = q / pow10 e; lo = \<lfloor>t\<rfloor>; hi = lo + 1;
          lo_ok = (fl (of_int lo * pow10 e) = Fin q);
          hi_ok = (fl (of_int hi * pow10 e) = Fin q);
          lo_closer = (t - of_int lo < of_int hi - t \<or> (t - of_int lo = of_int hi - t \<and> even lo))
      in if lo_ok \<and> (\<not> hi_ok \<or> lo_closer) then (lo, e)
         else if hi_ok then (hi, e)
         else (case fuel of 0 \<Rightarrow> (round_half_even t, e) | Suc fuel' \<Rightarrow> shortest_digits q n fuel' (Suc k)))"

declare shortest_digits.simps [simp del]

definition strip_zeros :: "string \<Rightarrow> string" where
  "strip_zeros ds = rev (dropWhile (\<lambda>c. c = CHR ''0'') (rev ds))"

definition pos_to_string :: "rat \<Rightarrow> string" where
  "pos_to_string q =
     (let (s, e) = shortest_digits q (ilog10 q + 1) 16 1;
          ds0 = int_digits s; ds = strip_zeros ds0;
          n = int (length ds0) + e; k = int (length ds)
      in if k \<le> n \<and> n \<le> 21 then ds @ replicate (nat (n - k)) CHR ''0''
         else if 0 < n \<and> n \<le> 21 then take (nat n) ds @ ''.'' @ drop (nat n) ds
         else if - 6 < n \<and> n \<le> 0 then ''0.'' @ replicate (nat (- n)) CHR ''0'' @ ds
         else (let x = n - 1;
                   ex = (if 0 \<le> x then ''+'' else ''-'') @ int_digits \<bar>x\<bar>
               in if k = 1 then ds @ ''e'' @ ex
                  else take 1 ds @ ''.'' @ drop 1 ds @ ''e'' @ ex))"

definition num_to_string :: "jsnum \<Rightarrow> string" where
  "num_to_string x = (case x of
       NaN \<Rightarrow> ''NaN''
     | PosInf \<Rightarrow> ''Infinity''
     | NegInf \<Rightarrow> ''-Infinity''
     | Fin q \<Rightarrow> if q = 0 then ''0'' else if q < 0 then ''-'' @ pos_to_string (- q) else pos_to_string q)"

subsection \<open>Values\<close>

text \<open>The values an answer can hold (\<^verbatim>\<open>answers: Record<string, any>\<close>): a submitted form
  stores a string for a short answer or a multiple choice and an array of strings for check
  boxes. \<open>JObj\<close> is any other object (not an array), given by the string it converts to: a
  lookup in a plain object can return a function or an object of \<^verbatim>\<open>Object.prototype\<close>.\<close>

datatype jsval =
  JUndefined | JNull | JBool bool | JNum jsnum | JStr string | JArr "string list" | JObj string

text \<open>Truthiness, as \<^verbatim>\<open>!x\<close>, \<^verbatim>\<open>x || y\<close>, \<^verbatim>\<open>x && y\<close> and \<^verbatim>\<open>if (x)\<close> test it.\<close>

definition truthy :: "jsval \<Rightarrow> bool" where
  "truthy v = (case v of
       JUndefined \<Rightarrow> False | JNull \<Rightarrow> False | JBool b \<Rightarrow> b
     | JNum n \<Rightarrow> n \<noteq> NaN \<and> n \<noteq> Fin 0
     | JStr s \<Rightarrow> s \<noteq> []
     | JArr xs \<Rightarrow> True
     | JObj txt \<Rightarrow> True)"

text \<open>\<^verbatim>\<open>String(val)\<close>; an array is joined with commas.\<close>

definition to_string :: "jsval \<Rightarrow> string" where
  "to_string v = (case v of
       JUndefined \<Rightarrow> ''undefined'' | JNull \<Rightarrow> ''null''
     | JBool b \<Rightarrow> (if b then ''true'' else ''false'')
     | JNum n \<Rightarrow> num_to_string n
     | JStr s \<Rightarrow> s
     | JArr xs \<Rightarrow> join '','' xs
     | JObj txt \<Rightarrow> txt)"

text \<open>A primitive that is a number or a string: the result type \<^verbatim>\<open>string | number\<close> of the
  normaliser, and what its local variables hold.\<close>

datatype prim = NumV jsnum | StrV string

definition prim_to_string :: "prim \<Rightarrow> string" where
  "prim_to_string p = (case p of NumV n \<Rightarrow> num_to_string n | StrV s \<Rightarrow> s)"

definition prim_to_number :: "prim \<Rightarrow> jsnum" where
  "prim_to_number p = (case p of NumV n \<Rightarrow> n | StrV s \<Rightarrow> toNumber s)"

text \<open>The operator \<^verbatim>\<open>+\<close> concatenates as soon as one side is a string; \<^verbatim>\<open>*\<close> and \<^verbatim>\<open>>=\<close>
  convert both sides to numbers.\<close>

definition js_plus :: "prim \<Rightarrow> prim \<Rightarrow> prim" where
  "js_plus a b = (case (a, b) of
       (NumV x, NumV y) \<Rightarrow> NumV (js_add x y)
     | _ \<Rightarrow> StrV (prim_to_string a @ prim_to_string b))"

definition js_times :: "prim \<Rightarrow> prim \<Rightarrow> prim" where
  "js_times a b = NumV (js_mul (prim_to_number a) (prim_to_number b))"

text \<open>Strict equality \<^verbatim>\<open>===\<close> on such primitives: the same type and the same value, where
  \<open>NaN\<close> equals nothing.\<close>

definition strict_eq :: "prim \<Rightarrow> prim \<Rightarrow> bool" where
  "strict_eq a b = (case (a, b) of
       (NumV x, NumV y) \<Rightarrow> x = y \<and> x \<noteq> NaN
     | (StrV s, StrV t) \<Rightarrow> s = t
     | _ \<Rightarrow> False)"

subsection \<open>\<^verbatim>\<open>normalizeToNumberOrString\<close>\<close>

definition numberWords :: "(string \<times> int) list" where
  "numberWords =
    [(''zero'', 0), (''one'', 1), (''two'', 2), (''three'', 3), (''four'', 4), (''five'', 5),
     (''six'', 6), (''seven'', 7), (''eight'', 8), (''nine'', 9), (''ten'', 10),
     (''eleven'', 11), (''twelve'', 12), (''thirteen'', 13), (''fourteen'', 14), (''fifteen'', 15),
     (''sixteen'', 16), (''seventeen'', 17), (''eighteen'', 18), (''nineteen'', 19),
     (''twenty'', 20), (''thirty'', 30), (''forty'', 40), (''fifty'', 50),
     (''sixty'', 60), (''seventy'', 70), (''eighty'', 80), (''ninety'', 90),
     (''hundred'', 100), (''thousand'', 1000)]"

text \<open>\<^verbatim>\<open>numberWords\<close> and the per-question \<^verbatim>\<open>counts\<close> tables are plain object literals, so
  a lookup \<^verbatim>\<open>obj[key]\<close> that finds no own property continues in \<^verbatim>\<open>Object.prototype\<close>. The
  names found there are listed with the string the inherited value converts to: the
  methods are functions, whose text is given as V8 prints it, and \<^verbatim>\<open>__proto__\<close> yields the
  prototype object itself. None of these values has a primitive \<^verbatim>\<open>valueOf\<close>, so in \<^verbatim>\<open>+\<close>,
  \<^verbatim>\<open>*\<close> and \<^verbatim>\<open>>=\<close> each of them behaves as that string.\<close>

definition native_function :: "string \<Rightarrow> string" where
  "native_function name = ''function '' @ name @ ''() { [native code] }''"

definition object_prototype :: "(string \<times> string) list" where
  "object_prototype =
    [(''constructor'', native_function ''Object''),
     (''__defineGetter__'', native_function ''__defineGetter__''),
     (''__defineSetter__'', native_function ''__defineSetter__''),
     (''hasOwnProperty'', native_function ''hasOwnProperty''),
     (''__lookupGetter__'', native_function ''__lookupGetter__''),
     (''__lookupSetter__'', native_function ''__lookupSetter__''),
     (''isPrototypeOf'', native_function ''isPrototypeOf''),
     (''propertyIsEnumerable'', native_function ''propertyIsEnumerable''),
     (''toString'', native_function ''toString''),
     (''valueOf'', native_function ''valueOf''),
     (''__proto__'', ''[object Object]''),
     (''toLocaleString'', native_function ''toLocaleString'')]"

text \<open>\<^verbatim>\<open>numberWords[part]\<close>: \<open>None\<close> stands for \<^verbatim>\<open>undefined\<close>.\<close>

definition lookup_numberWords :: "string \<Rightarrow> prim option" where
  "lookup_numberWords part = (case map_of numberWords part of
       Some v \<Rightarrow> Some (NumV (Fin (of_int v)))
     | None \<Rightarrow> (case map_of object_prototype part of
                  Some txt \<Rightarrow> Some (StrV txt)
                | None \<Rightarrow> None))"

text \<open>The \<^verbatim>\<open>for\<close> loop over the parts, with the variables \<^verbatim>\<open>total\<close> (here \<open>total_acc\<close>) and \<^verbatim>\<open>subTotal\<close>; the
  result carries their final contents and the flag \<^verbatim>\<open>isNumberWord\<close>. An unknown part leaves
  the loop at once.\<close>

fun parse_parts :: "string list \<Rightarrow> prim \<Rightarrow> prim \<Rightarrow> prim \<times> prim \<times> bool" where
  "parse_parts [] total_acc subTotal =  (total_acc, subTotal, True)"
| "parse_parts (part # rest) total_acc subTotal =
     (if part = ''and'' then parse_parts rest total_acc subTotal
      else (case lookup_numberWords part of
              None \<Rightarrow>  (total_acc, subTotal, False)
            | Some val \<Rightarrow>
                if js_ge (prim_to_number val) (Fin 100) then
                  (let subTotal' = js_times (if subTotal = NumV (Fin 0) then NumV (Fin 1) else subTotal) val
                   in parse_parts rest (js_plus total_acc subTotal') (NumV (Fin 0)))
                else parse_parts rest total_acc (js_plus subTotal val)))"

definition normalizeToNumberOrString :: "jsval \<Rightarrow> prim" where
  "normalizeToNumberOrString val =
     (if val = JNull \<or> val = JUndefined then StrV []
      else
        (let str = toLowerCase (trim (to_string val));
             num = toNumber str
         in if num \<noteq> NaN \<and> str \<noteq> [] then NumV num
            else
              (let parts = split_sep str
               in if length parts = 0 \<or> (length parts = 1 \<and> parts ! 0 = []) then StrV str
                  else (case parse_parts parts (NumV (Fin 0)) (NumV (Fin 0)) of
                           (total_acc, subTotal, isNumberWord) \<Rightarrow>
                            if isNumberWord then js_plus total_acc subTotal else StrV str))))"

subsection \<open>The word-number algorithm in the words of the specification\<close>

text \<open>The specification describes the parser over the values of the recognised tokens: an
  accumulator and a running subtotal; a value of 100 or more multiplies the subtotal (an
  empty subtotal counting as 1) and is folded into the accumulator, the subtotal starting
  afresh; a smaller value is added to the subtotal; the result is accumulator plus subtotal.
  The token \<^verbatim>\<open>and\<close> has no value and is skipped. This is stated over the integers.\<close>

fun word_total :: "int list \<Rightarrow> int \<Rightarrow> int \<Rightarrow> int" where
  "word_total [] acc sub = acc + sub"
| "word_total (v # vs) acc sub =
     (if 100 \<le> v then word_total vs (acc + (if sub = 0 then 1 else sub) * v) 0
      else word_total vs acc (sub + v))"

definition token_values :: "string list \<Rightarrow> int list" where
  "token_values parts = List.map_filter (map_of numberWords) parts"

text \<open>A token the parser accepts: \<^verbatim>\<open>and\<close> or a number word.\<close>

definition recognized :: "string \<Rightarrow> bool" where
  "recognized t \<longleftrightarrow> t = ''and'' \<or> map_of numberWords t \<noteq> None"


subsection \<open>Forms and responses\<close>

text \<open>\<^verbatim>\<open>Question\<close>, \<^verbatim>\<open>Form\<close> and \<^verbatim>\<open>Response\<close> with the fields the core reads. The type of a
  question is the string the code compares (\<^verbatim>\<open>'short_answer'\<close>, \<^verbatim>\<open>'multiple_choice'\<close>,
  \<^verbatim>\<open>'checkbox'\<close>); \<^verbatim>\<open>correctAnswer\<close> is optional. The \<^verbatim>\<open>answers\<close> of a response list the own
  properties of that object.\<close>

record question =
  qid :: string
  qtext :: string
  qtype :: string
  options :: "string list"
  correctAnswer :: "string option"

record form =
  questions :: "question list"

record response =
  answers :: "(string \<times> jsval) list"
  submitted_at :: "string option"

text \<open>\<^verbatim>\<open>r.answers[k]\<close>: the own property if there is one, else what \<^verbatim>\<open>Object.prototype\<close> provides
  under that name, else \<^verbatim>\<open>undefined\<close>.\<close>

definition answer_of :: "response \<Rightarrow> string \<Rightarrow> jsval" where
  "answer_of r k = (case map_of (answers r) k of
       Some v \<Rightarrow> v
     | None \<Rightarrow> (case map_of object_prototype k of Some txt \<Rightarrow> JObj txt | None \<Rightarrow> JUndefined))"

text \<open>\<^verbatim>\<open>q.correctAnswer\<close> in a condition: present and not the empty string.\<close>

definition has_correctAnswer :: "question \<Rightarrow> bool" where
  "has_correctAnswer q = (case correctAnswer q of None \<Rightarrow> False | Some e \<Rightarrow> e \<noteq> [])"

subsection \<open>\<^verbatim>\<open>checkAnswer\<close> and \<^verbatim>\<open>calculateScore\<close>\<close>

definition checkAnswer :: "question \<Rightarrow> jsval \<Rightarrow> bool" where
  "checkAnswer q userAnswer =
     (if \<not> truthy userAnswer then False
      else if \<not> has_correctAnswer q then False
      else (case correctAnswer q of
              None \<Rightarrow> False
            | Some expected \<Rightarrow>
                if qtype q = ''short_answer'' then
                  strict_eq (normalizeToNumberOrString userAnswer) (normalizeToNumberOrString (JStr expected))
                else if qtype q = ''multiple_choice'' then userAnswer = JStr expected
                else if qtype q = ''checkbox'' then
                  (case userAnswer of JArr xs \<Rightarrow> expected \<in> set xs | _ \<Rightarrow> False)
                else False))"

text \<open>The counters \<^verbatim>\<open>score\<close> and \<^verbatim>\<open>total\<close> (and the other counters below) only ever grow by
  one from zero; such counts stay far below \<open>2^53\<close>, where binary64 arithmetic is exact, and
  are modelled as natural numbers. The result is the pair \<open>(score, total)\<close>.\<close>

definition score_step :: "response \<Rightarrow> nat \<times> nat \<Rightarrow> question \<Rightarrow> nat \<times> nat" where
  "score_step r acc q = (case acc of (score, tot) \<Rightarrow>
     if has_correctAnswer q then
       (if checkAnswer q (answer_of r (qid q)) then (score + 1, tot + 1) else (score, tot + 1))
     else (score, tot))"

definition calculateScore :: "form \<Rightarrow> response \<Rightarrow> nat \<times> nat" where
  "calculateScore f r = foldl (score_step r) (0, 0) (questions f)"

subsection \<open>\<^verbatim>\<open>filteredResponses\<close>\<close>

text \<open>The filter state holds the raw contents of the six input fields; an empty string means
  that the field is not set.\<close>

record filters =
  dateFrom :: string
  dateTo :: string
  minScore :: string
  maxScore :: string
  questionId :: string
  answerKeyword :: string

text \<open>\<^verbatim>\<open>new Date(string)\<close> and \<^verbatim>\<open>setHours(23, 59, 59, 999)\<close> depend on the host (date
  formats, local time zone); they are parameters of the model. A date is its time value in
  milliseconds, \<open>None\<close> for an invalid date, and comparing with an invalid date is false.\<close>

record host =
  parse_date :: "string \<Rightarrow> int option"
  end_of_day :: "int \<Rightarrow> int"

definition date_lt :: "int option \<Rightarrow> int option \<Rightarrow> bool" where
  "date_lt a b = (case (a, b) of (Some x, Some y) \<Rightarrow> x < y | _ \<Rightarrow> False)"

definition submitted :: "response \<Rightarrow> string" where
  "submitted r = (case submitted_at r of Some s \<Rightarrow> s | None \<Rightarrow> [])"

fun is_prefix :: "string \<Rightarrow> string \<Rightarrow> bool" where
  "is_prefix [] ys = True"
| "is_prefix (x # xs) [] = False"
| "is_prefix (x # xs) (y # ys) = (x = y \<and> is_prefix xs ys)"

text \<open>\<^verbatim>\<open>hay.includes(needle)\<close>\<close>

fun str_includes :: "string \<Rightarrow> string \<Rightarrow> bool" where
  "str_includes [] needle = (needle = [])"
| "str_includes (h # hs) needle = (is_prefix needle (h # hs) \<or> str_includes hs needle)"

definition date_ok :: "host \<Rightarrow> filters \<Rightarrow> response \<Rightarrow> bool" where
  "date_ok h f r \<longleftrightarrow>
     \<not> (dateFrom f \<noteq> [] \<and> date_lt (parse_date h (submitted r)) (parse_date h (dateFrom f))) \<and>
     \<not> (dateTo f \<noteq> [] \<and>
        date_lt (map_option (end_of_day h) (parse_date h (dateTo f))) (parse_date h (submitted r)))"

definition score_ok :: "form \<Rightarrow> filters \<Rightarrow> response \<Rightarrow> bool" where
  "score_ok fm f r \<longleftrightarrow>
     (if minScore f \<noteq> [] \<or> maxScore f \<noteq> [] then
        (let score = fst (calculateScore fm r) in
           if minScore f \<noteq> [] \<and> js_lt (Fin (of_nat score)) (parseInt (minScore f)) then False
           else if maxScore f \<noteq> [] \<and> js_gt (Fin (of_nat score)) (parseInt (maxScore f)) then False
           else True)
      else True)"

definition keyword_ok :: "filters \<Rightarrow> response \<Rightarrow> bool" where
  "keyword_ok f r \<longleftrightarrow>
     (if questionId f \<noteq> [] \<and> answerKeyword f \<noteq> [] then
        (let userVal = answer_of r (questionId f);
             keyword = toLowerCase (answerKeyword f);
             answerStr = (case userVal of JArr xs \<Rightarrow> join '' '' xs
                          | _ \<Rightarrow> if truthy userVal then to_string userVal else [])
         in str_includes (toLowerCase answerStr) keyword)
      else True)"

text \<open>The callback of \<^verbatim>\<open>responses.filter\<close>: the three tests in the order of the source, each
  one returning \<^verbatim>\<open>false\<close> at once when it fails.\<close>

definition keep_response :: "host \<Rightarrow> form \<Rightarrow> filters \<Rightarrow> response \<Rightarrow> bool" where
  "keep_response h fm f r =
     (if \<not> date_ok h f r then False
      else if \<not> score_ok fm f r then False
      else if \<not> keyword_ok f r then False
      else True)"

definition filteredResponses :: "host \<Rightarrow> form option \<Rightarrow> response list \<Rightarrow> filters \<Rightarrow> response list" where
  "filteredResponses h selectedForm responses f =
     (case selectedForm of None \<Rightarrow> [] | Some fm \<Rightarrow> filter (keep_response h fm f) responses)"

text \<open>What a moderator leaves in a score field for an integer bound: nothing when the bound
  is not set, the decimal numeral otherwise.\<close>

definition score_field :: "int option \<Rightarrow> string" where
  "score_field b = (case b of None \<Rightarrow> [] | Some n \<Rightarrow> if n < 0 then ''-'' @ int_digits (- n) else int_digits n)"


subsection \<open>Plain objects used as tables\<close>

text \<open>An object literal keeps its own properties in the order of their creation; assigning
  to an existing property keeps its place.\<close>

type_synonym 'v obj = "(string \<times> 'v) list"

fun set_prop :: "string \<Rightarrow> 'v \<Rightarrow> 'v obj \<Rightarrow> 'v obj" where
  "set_prop k v [] = [(k, v)]"
| "set_prop k v (p # ps) = (if fst p = k then (k, v) # ps else p # set_prop k v ps)"

text \<open>\<^verbatim>\<open>Object.entries\<close> lists the own properties in the order of \<^verbatim>\<open>OrdinaryOwnPropertyKeys\<close>:
  first the keys that are array indices (canonical decimal numerals below \<open>2^32 - 1\<close>) in
  ascending numeric order, then the other keys in the order of their creation.\<close>

definition is_array_index :: "string \<Rightarrow> bool" where
  "is_array_index k \<longleftrightarrow> k \<noteq> [] \<and> list_all is_digit k \<and> (k = ''0'' \<or> hd k \<noteq> CHR ''0'')
     \<and> radix_val 10 k < 4294967295"

definition entries :: "'v obj \<Rightarrow> (string \<times> 'v) list" where
  "entries ob = sort_key (\<lambda>p. radix_val 10 (fst p)) (filter (\<lambda>p. is_array_index (fst p)) ob)
                @ filter (\<lambda>p. \<not> is_array_index (fst p)) ob"

text \<open>\<^verbatim>\<open>Array.prototype.sort\<close> with a comparison function. ECMAScript requires the sort to be
  stable, so for a consistent comparison function the result is the one stable arrangement;
  it is computed here by insertion. (For an inconsistent comparison function the language
  leaves the order to the implementation.)\<close>

fun insert_sorted :: "('a \<Rightarrow> 'a \<Rightarrow> int) \<Rightarrow> 'a \<Rightarrow> 'a list \<Rightarrow> 'a list" where
  "insert_sorted cmp x [] = [x]"
| "insert_sorted cmp x (y # ys) = (if cmp x y \<le> 0 then x # y # ys else y # insert_sorted cmp x ys)"

definition js_sort :: "('a \<Rightarrow> 'a \<Rightarrow> int) \<Rightarrow> 'a list \<Rightarrow> 'a list" where
  "js_sort cmp xs = foldr (insert_sorted cmp) xs []"

subsection \<open>\<^verbatim>\<open>getAnalytics\<close>\<close>

text \<open>A cell of a \<^verbatim>\<open>counts\<close> table holds a count, or, when the key is the name of a property
  inherited from \<^verbatim>\<open>Object.prototype\<close>, the string that \<^verbatim>\<open>+ 1\<close> makes of the inherited
  value.\<close>

datatype cval = Count nat | Junk string

text \<open>\<^verbatim>\<open>counts[key] = (counts[key] || 0) + 1\<close>. Assigning a primitive to \<^verbatim>\<open>__proto__\<close> runs
  the inherited setter, which ignores it, so that key never becomes an own property.\<close>

definition bump_count :: "cval obj \<Rightarrow> string \<Rightarrow> cval obj" where
  "bump_count cs key =
     (let new = (case map_of cs key of
                   Some (Count n) \<Rightarrow> Count (n + 1)
                 | Some (Junk t) \<Rightarrow> if t \<noteq> [] then Junk (t @ ''1'') else Count 1
                 | None \<Rightarrow> (case map_of object_prototype key of
                              Some txt \<Rightarrow> Junk (txt @ ''1'')
                            | None \<Rightarrow> Count 1))
      in if key = ''__proto__'' then cs else set_prop key new cs)"

record qstat =
  counts :: "cval obj"
  qtotal :: nat

text \<open>The tokens one answer contributes to the frequency table.\<close>

definition answersToCount :: "jsval \<Rightarrow> string list" where
  "answersToCount answer = (case answer of
       JArr xs \<Rightarrow> xs
     | _ \<Rightarrow> if truthy answer then [to_string answer] else [])"

definition count_key :: "question \<Rightarrow> string \<Rightarrow> string" where
  "count_key q ans =
     (if qtype q = ''short_answer'' then prim_to_string (normalizeToNumberOrString (JStr ans)) else ans)"

text \<open>The body of the innermost loop. \<^verbatim>\<open>questionStats[q.id]\<close> was assigned for every question
  by the initialising loop, which ran over the same questions, so reading it yields the
  assigned record, whatever the id is (assigning an object to \<^verbatim>\<open>__proto__\<close> makes it the
  prototype, and reading \<^verbatim>\<open>__proto__\<close> returns it again).\<close>

definition count_answer :: "question \<Rightarrow> qstat obj \<Rightarrow> string \<Rightarrow> qstat obj" where
  "count_answer q stats ans = (case map_of stats (qid q) of
       None \<Rightarrow> stats
     | Some st \<Rightarrow>
         set_prop (qid q)
           (st\<lparr>counts := bump_count (counts st) (count_key q ans), qtotal := qtotal st + 1\<rparr>) stats)"

definition count_question :: "response \<Rightarrow> qstat obj \<Rightarrow> question \<Rightarrow> qstat obj" where
  "count_question r stats q = foldl (count_answer q) stats (answersToCount (answer_of r (qid q)))"

text \<open>A response passes when \<^verbatim>\<open>total > 0 && (score/total) >= 0.5\<close>.\<close>

definition passes :: "form \<Rightarrow> response \<Rightarrow> bool" where
  "passes fm r = (case calculateScore fm r of (score, tot) \<Rightarrow>
     0 < tot \<and> js_ge (js_div (Fin (of_nat score)) (Fin (of_nat tot))) (Fin (1 / 2)))"

record tally =
  totalScore :: nat
  passingCount :: nat
  questionStats :: "qstat obj"

definition tally_response :: "form \<Rightarrow> tally \<Rightarrow> response \<Rightarrow> tally" where
  "tally_response fm t r =
     \<lparr>totalScore = totalScore t + fst (calculateScore fm r),
      passingCount = (if passes fm r then passingCount t + 1 else passingCount t),
      questionStats = foldl (count_question r) (questionStats t) (questions fm)\<rparr>"

definition init_stats :: "form \<Rightarrow> qstat obj" where
  "init_stats fm = foldl (\<lambda>stats q. set_prop (qid q) \<lparr>counts = [], qtotal = 0\<rparr> stats) [] (questions fm)"

text \<open>\<^verbatim>\<open>x.toFixed(1)\<close>: the nearest multiple of one tenth, the larger one on a tie.\<close>

definition to_fixed1 :: "jsnum \<Rightarrow> string" where
  "to_fixed1 x = (case x of
       Fin q \<Rightarrow>
         if 10 ^ 21 \<le> \<bar>q\<bar> then num_to_string x
         else (let n = \<lfloor>\<bar>q\<bar> * 10 + 1 / 2\<rfloor>;
                   body = int_digits (n div 10) @ ''.'' @ int_digits (n mod 10)
               in if q < 0 then ''-'' @ body else body)
     | _ \<Rightarrow> num_to_string x)"

text \<open>\<^verbatim>\<open>Math.round((a / b) * 100)\<close>, the form of all percentages of the report.\<close>

definition percent :: "nat \<Rightarrow> nat \<Rightarrow> jsnum" where
  "percent a b = math_round (js_mul (js_div (Fin (of_nat a)) (Fin (of_nat b))) (Fin 100))"

record report =
  totalResponses :: nat
  avgScore :: string
  formMaxPoints :: nat
  avgPercent :: jsnum
  passingRate :: jsnum
  stats :: "qstat obj"

definition getAnalytics :: "form option \<Rightarrow> response list \<Rightarrow> report option" where
  "getAnalytics selectedForm dataSet = (case selectedForm of
       None \<Rightarrow> None
     | Some fm \<Rightarrow>
         if length dataSet = 0 then None
         else
           (let t = foldl (tally_response fm)
                      \<lparr>totalScore = 0, passingCount = 0, questionStats = init_stats fm\<rparr> dataSet;
                maxPoints = length (filter has_correctAnswer (questions fm))
            in Some \<lparr>totalResponses = length dataSet,
                     avgScore = (if 0 < length dataSet
                                 then to_fixed1 (js_div (Fin (of_nat (totalScore t))) (Fin (of_nat (length dataSet))))
                                 else ''0''),
                     formMaxPoints = maxPoints,
                     avgPercent = (if 0 < maxPoints \<and> 0 < length dataSet
                                   then percent (totalScore t) (length dataSet * maxPoints)
                                   else Fin 0),
                     passingRate = percent (passingCount t) (length dataSet),
                     stats = questionStats t\<rparr>))"

text \<open>The comparison function \<^verbatim>\<open>([,a], [,b]) => b - a\<close>. With a cell that is not a number the
  difference is \<open>NaN\<close>, which \<^verbatim>\<open>sort\<close> reads as zero.\<close>

definition by_count_desc :: "string \<times> cval \<Rightarrow> string \<times> cval \<Rightarrow> int" where
  "by_count_desc x y = (case (snd x, snd y) of (Count a, Count b) \<Rightarrow> int b - int a | _ \<Rightarrow> 0)"

text \<open>\<^verbatim>\<open>Object.entries(stats.counts).sort(([,a], [,b]) => b - a).slice(0, 5)\<close>\<close>

definition sortedAnswers :: "qstat \<Rightarrow> (string \<times> cval) list" where
  "sortedAnswers st = take 5 (js_sort by_count_desc (entries (counts st)))"

text \<open>What the dashboard shows for one question: \<^verbatim>\<open>analytics.questionStats[q.id]\<close> and its
  \<^verbatim>\<open>sortedAnswers\<close>; there is nothing to show without a report.\<close>

definition notable :: "form \<Rightarrow> response list \<Rightarrow> question \<Rightarrow> (string \<times> cval) list option" where
  "notable fm rs q = (case getAnalytics (Some fm) rs of
       None \<Rightarrow> None
     | Some rep \<Rightarrow> map_option sortedAnswers (map_of (stats rep) (qid q)))"

subsection \<open>The frequency table in the words of the specification\<close>

text \<open>The counting keys of a question in the order in which the responses, and within a
  response the selected options, are visited.\<close>

definition keys_for :: "question \<Rightarrow> response list \<Rightarrow> string list" where
  "keys_for q rs = concat (map (\<lambda>r. map (count_key q) (answersToCount (answer_of r (qid q)))) rs)"

text \<open>The distinct keys in the order of their first occurrence.\<close>

fun first_seen :: "string list \<Rightarrow> string list" where
  "first_seen [] = []"
| "first_seen (k # ks) = k # removeAll k (first_seen ks)"

text \<open>The order in which an object lists its keys: array indices in ascending numeric order,
  then the remaining keys as they were created.\<close>

definition enumeration_order :: "string list \<Rightarrow> string list" where
  "enumeration_order ks = sort_key (radix_val 10) (filter is_array_index ks) @ filter (\<lambda>k. \<not> is_array_index k) ks"

text \<open>The table: every key with the number of its occurrences, keys in that order.\<close>

definition frequency_table :: "question \<Rightarrow> response list \<Rightarrow> (string \<times> cval) list" where
  "frequency_table q rs =
     map (\<lambda>k. (k, Count (count_list (keys_for q rs) k))) (enumeration_order (first_seen (keys_for q rs)))"

text \<open>The count in a cell, its negation as a sorting key (ascending order of the negated count
  is descending order of the count), whether a cell holds a count at all, and the \<^verbatim>\<open>counts\<close>
  table of a question within \<^verbatim>\<open>questionStats\<close>.\<close>

definition count_of :: "string \<times> cval \<Rightarrow> nat" where
  "count_of p = (case snd p of Count n \<Rightarrow> n | Junk t \<Rightarrow> 0)"

definition neg_count :: "string \<times> cval \<Rightarrow> int" where
  "neg_count p = - int (count_of p)"

definition is_count :: "cval \<Rightarrow> bool" where
  "is_count v = (case v of Count n \<Rightarrow> True | Junk t \<Rightarrow> False)"

definition cnt :: "qstat obj \<Rightarrow> string \<Rightarrow> cval obj option" where
  "cnt S k = map_option counts (map_of S k)"

subsection \<open>Example data\<close>

definition ex_short :: "string \<Rightarrow> question" where
  "ex_short expected =
     \<lparr>qid = ''q1'', qtext = ''How many legs does a spider have?'', qtype = ''short_answer'',
      options = [], correctAnswer = Some expected\<rparr>"

definition ex_checkbox :: question where
  "ex_checkbox =
     \<lparr>qid = ''q2'', qtext = ''Which of these is a prime?'', qtype = ''checkbox'',
      options = [''A'', ''B'', ''C''], correctAnswer = Some ''B''\<rparr>"

definition ex_host :: host where
  "ex_host = \<lparr>parse_date = (\<lambda>s. None), end_of_day = (\<lambda>t. t)\<rparr>"

definition ex_choice :: question where
  "ex_choice = \<lparr>qid = ''q3'', qtext = ''Which city is the capital of France?'', qtype = ''multiple_choice'',
      options = [''Paris'', ''Lyon''], correctAnswer = Some ''Paris''\<rparr>"

definition ex_form :: form where
  "ex_form = \<lparr>questions = [ex_choice]\<rparr>"

definition ex_response :: "string \<Rightarrow> response" where
  "ex_response a = \<lparr>answers = [(''q3'', JStr a)], submitted_at = Some ''2024-01-01T10:00:00''\<rparr>"

definition ex_filters :: "string \<Rightarrow> string \<Rightarrow> filters" where
  "ex_filters lo hi = \<lparr>dateFrom = [], dateTo = [], minScore = lo, maxScore = hi, questionId = [], answerKeyword = []\<rparr>"


definition ex_form8 :: form where
  "ex_form8 = \<lparr>questions = [ex_short ''8'']\<rparr>"

definition ex_answer :: "string \<Rightarrow> response" where
  "ex_answer a = \<lparr>answers = [(''q1'', JStr a)], submitted_at = None\<rparr>"

definition ex_quiz :: form where
  "ex_quiz = \<lparr>questions =
     [\<lparr>qid = ''a'', qtext = ''1 + 1'', qtype = ''short_answer'', options = [], correctAnswer = Some ''2''\<rparr>,
      \<lparr>qid = ''b'', qtext = ''2 + 2'', qtype = ''short_answer'', options = [], correctAnswer = Some ''4''\<rparr>,
      \<lparr>qid = ''c'', qtext = ''Capital of France'', qtype = ''multiple_choice'', options = [''Paris'', ''Lyon''], correctAnswer = Some ''Paris''\<rparr>,
      \<lparr>qid = ''d'', qtext = ''Primes'', qtype = ''checkbox'', options = [''2'', ''4''], correctAnswer = Some ''2''\<rparr>,
      \<lparr>qid = ''e'', qtext = ''Capital of Norway'', qtype = ''multiple_choice'', options = [''Oslo'', ''Bergen''], correctAnswer = Some ''Oslo''\<rparr>,
      \<lparr>qid = ''f'', qtext = ''Comments'', qtype = ''short_answer'', options = [], correctAnswer = None\<rparr>]\<rparr>"

definition ex_sheet :: "string \<Rightarrow> string \<Rightarrow> string \<Rightarrow> string list \<Rightarrow> string \<Rightarrow> response" where
  "ex_sheet a b c d e =
     \<lparr>answers = [(''a'', JStr a), (''b'', JStr b), (''c'', JStr c), (''d'', JArr d), (''e'', JStr e)],
      submitted_at = None\<rparr>"

text \<open>A question whose id is the name of an inherited property, and a response that leaves
  every question unanswered.\<close>

definition ex_constructor :: question where
  "ex_constructor = \<lparr>qid = ''constructor'', qtext = ''Favourite colour'', qtype = ''multiple_choice'',
      options = [''red'', ''blue''], correctAnswer = None\<rparr>"

definition ex_blank :: response where
  "ex_blank = \<lparr>answers = [], submitted_at = None\<rparr>"

section \<open>Properties\<close>

subsection \<open>Integers below \<open>2^53\<close> are exact\<close>

lemma round_half_even_of_int [simp]: "round_half_even (of_int z) = z"
  by (simp add: round_half_even_def Let_def)

lemma pow2_nonpos: "e \<le> 0 \<Longrightarrow> pow2 e = 1 / 2 ^ nat (- e)"
  by (auto simp: pow2_def)

lemma ilog2_of_int:
  assumes "0 < n"
  shows "ilog2 (of_int n) = bitlen n - 1"
proof -
  have b: "1 \<le> bitlen n" using assms bitlen_eq_zero_iff [of n] bitlen_nonneg [of n] by linarith
  have "(2::int) ^ nat (bitlen n - 1) \<le> n" using bitlen_bounds [OF assms] by simp
  then have "(of_int ((2::int) ^ nat (bitlen n - 1)) :: rat) \<le> of_int n"
    by (simp only: of_int_le_iff)
  then have "pow2 (bitlen n - 1) \<le> of_int n" using b by (simp add: pow2_def)
  moreover have "bitlen 1 = 1" by (subst compute_bitlen) simp
  ultimately show ?thesis
    by (simp add: ilog2_def Let_def)
qed

lemma fl_pos_of_int:
  assumes "0 < n" and "n < 2 ^ 53"
  shows "fl_pos (of_int n) = Fin (of_int n)"
proof -
  have b1: "1 \<le> bitlen n" using assms bitlen_eq_zero_iff [of n] bitlen_nonneg [of n] by linarith
  have b2: "bitlen n \<le> 53" using assms by (simp add: bitlen_le_iff_power)
  define j where "j = nat (53 - bitlen n)"
  have e: "max (ilog2 (of_int n) - 52) (- 1074) = - int j"
    using b1 b2 by (simp add: ilog2_of_int [OF assms(1)] j_def)
  have p: "pow2 (- int j) = 1 / 2 ^ j" by (simp add: pow2_nonpos)
  have q: "(of_int n :: rat) / pow2 (- int j) = of_int (n * 2 ^ j)" by (simp add: p)
  show ?thesis
    unfolding fl_pos_def Let_def e q round_half_even_of_int
    by (simp add: p)
qed

lemma fl_of_int:
  assumes "\<bar>n\<bar> < 2 ^ 53"
  shows "fl (of_int n) = Fin (of_int n)"
proof -
  consider "n = 0" | "0 < n" | "n < 0" by linarith
  then show ?thesis
  proof cases
    case 1 then show ?thesis by (simp add: fl_def)
  next
    case 2 then show ?thesis using assms by (simp add: fl_def fl_pos_of_int)
  next
    case 3
    then have "fl_pos (of_int (- n)) = Fin (of_int (- n))" using assms by (intro fl_pos_of_int) auto
    then show ?thesis using 3 by (simp add: fl_def js_neg_def)
  qed
qed



subsection \<open>The normaliser\<close>

lemma js_ge_Fin [simp]: "js_ge (Fin a) (Fin b) \<longleftrightarrow> b \<le> a"
  by (auto simp: js_ge_def js_lt_def)

lemma js_add_int:
  "\<bar>a + b\<bar> < 2 ^ 53 \<Longrightarrow> js_add (Fin (of_int a)) (Fin (of_int b)) = Fin (of_int (a + b))"
  using fl_of_int [of "a + b"] by (simp add: js_add_def)

lemma js_mul_int:
  "\<bar>a * b\<bar> < 2 ^ 53 \<Longrightarrow> js_mul (Fin (of_int a)) (Fin (of_int b)) = Fin (of_int (a * b))"
  using fl_of_int [of "a * b"] by (simp add: js_mul_def js_is_inf_def)

lemma numberWords_range: "map_of numberWords t = Some v \<Longrightarrow> 0 \<le> v \<and> v \<le> 1000"
  by (auto simp: numberWords_def split: if_splits)

lemma and_not_word: "map_of numberWords ''and'' = None"
  by (simp add: numberWords_def)

lemma lookup_word: "map_of numberWords t = Some v \<Longrightarrow> lookup_numberWords t = Some (NumV (Fin (of_int v)))"
  by (simp add: lookup_numberWords_def)

lemma parse_parts_words:
  assumes "\<forall>t\<in>set ps. recognized t" and "0 \<le> T" and "0 \<le> S"
    and "T + 1000 * (S + 1) + 101000 * int (length ps) < 2 ^ 53"
  shows "\<exists>T' S'. parse_parts ps (NumV (Fin (of_int T))) (NumV (Fin (of_int S)))
                   = (NumV (Fin (of_int T')), NumV (Fin (of_int S')), True)
               \<and> T' + S' = word_total (token_values ps) T S \<and> 0 \<le> T' \<and> 0 \<le> S' \<and> T' + S' < 2 ^ 53"
  using assms
proof (induction ps arbitrary: T S)
  case Nil
  then show ?case by (simp add: token_values_def)
next
  case (Cons p ps)
  show ?case
  proof (cases "p = ''and''")
    case True
    have "\<exists>T' S'. parse_parts ps (NumV (Fin (of_int T))) (NumV (Fin (of_int S)))
                   = (NumV (Fin (of_int T')), NumV (Fin (of_int S')), True)
               \<and> T' + S' = word_total (token_values ps) T S \<and> 0 \<le> T' \<and> 0 \<le> S' \<and> T' + S' < 2 ^ 53"
      using Cons.prems by (intro Cons.IH) auto
    then show ?thesis using True by (simp add: token_values_def and_not_word)
  next
    case False
    then obtain v where v: "map_of numberWords p = Some v"
      using Cons.prems(1) by (auto simp: recognized_def)
    have vr: "0 \<le> v" "v \<le> 1000" using numberWords_range [OF v] by auto
    show ?thesis
    proof (cases "100 \<le> v")
      case True
      define a where "a = (if S = 0 then 1 else S)"
      have a: "0 < a" "a \<le> S + 1" using Cons.prems(3) by (auto simp: a_def)
      have av: "a * v \<le> 1000 * (S + 1)"
        using a vr by (intro order_trans [OF mult_mono [of a "S + 1" v 1000]]) auto
      have av0: "0 \<le> a * v" using a vr by simp
      have m: "js_mul (Fin (of_int a)) (Fin (of_int v)) = Fin (of_int (a * v))"
        using av av0 Cons.prems by (intro js_mul_int) auto
      have p: "js_add (Fin (of_int T)) (Fin (of_int (a * v))) = Fin (of_int (T + a * v))"
        using av av0 Cons.prems by (intro js_add_int) auto
      have st: "(if NumV (Fin (rat_of_int S)) = NumV (Fin 0) then NumV (Fin 1) else NumV (Fin (of_int S)))
                = NumV (Fin (of_int a))"
        by (simp add: a_def)
      have val: "js_plus (NumV (Fin (of_int T)))
                   (js_times (if NumV (Fin (rat_of_int S)) = NumV (Fin 0) then NumV (Fin 1)
                              else NumV (Fin (of_int S))) (NumV (Fin (of_int v))))
                 = NumV (Fin (of_int (T + a * v)))"
        unfolding st by (simp only: js_times_def prim_to_number_def js_plus_def prim.case m p prod.case)
      have "parse_parts (p # ps) (NumV (Fin (of_int T))) (NumV (Fin (of_int S)))
            = parse_parts ps (js_plus (NumV (Fin (of_int T)))
                   (js_times (if NumV (Fin (rat_of_int S)) = NumV (Fin 0) then NumV (Fin 1)
                              else NumV (Fin (of_int S))) (NumV (Fin (of_int v))))) (NumV (Fin 0))"
        using False True
        by (simp only: parse_parts.simps lookup_word [OF v] prim_to_number_def Let_def)
           (simp del: of_int_eq_0_iff)
      then have step: "parse_parts (p # ps) (NumV (Fin (of_int T))) (NumV (Fin (of_int S)))
                  = parse_parts ps (NumV (Fin (of_int (T + a * v)))) (NumV (Fin (of_int 0)))"
        unfolding val by simp
      have "\<exists>T' S'. parse_parts ps (NumV (Fin (of_int (T + a * v)))) (NumV (Fin (of_int 0)))
                   = (NumV (Fin (of_int T')), NumV (Fin (of_int S')), True)
               \<and> T' + S' = word_total (token_values ps) (T + a * v) 0 \<and> 0 \<le> T' \<and> 0 \<le> S' \<and> T' + S' < 2 ^ 53"
        using Cons.prems av av0 by (intro Cons.IH) auto
      then show ?thesis
        unfolding step using True by (simp add: token_values_def v a_def)
    next
      case small: False
      have p: "js_add (Fin (of_int S)) (Fin (of_int v)) = Fin (of_int (S + v))"
        using vr Cons.prems by (intro js_add_int) auto
      have step: "parse_parts (p # ps) (NumV (Fin (of_int T))) (NumV (Fin (of_int S)))
                  = parse_parts ps (NumV (Fin (of_int T))) (NumV (Fin (of_int (S + v))))"
        using False small
        by (simp add: lookup_word [OF v] prim_to_number_def js_plus_def p)
      have "\<exists>T' S'. parse_parts ps (NumV (Fin (of_int T))) (NumV (Fin (of_int (S + v))))
                   = (NumV (Fin (of_int T')), NumV (Fin (of_int S')), True)
               \<and> T' + S' = word_total (token_values ps) T (S + v) \<and> 0 \<le> T' \<and> 0 \<le> S' \<and> T' + S' < 2 ^ 53"
        using Cons.prems vr small by (intro Cons.IH) auto
      then show ?thesis
        unfolding step using small by (simp add: token_values_def v)
    qed
  qed
qed

lemma parse_parts_unknown:
  "\<exists>t\<in>set ps. t \<noteq> ''and'' \<and> lookup_numberWords t = None \<Longrightarrow> snd (snd (parse_parts ps T S)) = False"
  by (induction ps arbitrary: T S) (auto simp: Let_def split: option.splits)


lemma split_sep_nonempty: "split_sep s \<noteq> []"
  by (induction s rule: split_sep.induct) (auto split: list.splits)

lemma length_split_sep: "length (split_sep s) \<le> length s + 1"
proof (induction s rule: split_sep.induct)
  case (3 c d cs)
  then show ?case by (cases "is_sep c") (auto split: list.splits)
qed auto

lemma split_sep_hd:
  "split_sep s = t # ts \<Longrightarrow> t \<noteq> [] \<Longrightarrow> s \<noteq> [] \<and> hd s = hd t \<and> \<not> is_sep (hd s)"
  by (induction s arbitrary: t ts rule: split_sep.induct) (auto split: if_splits list.splits)

lemma recognized_hd: "recognized t \<Longrightarrow> t \<noteq> [] \<and> hd t \<in> set ''zotfsenha''"
  unfolding recognized_def by (auto simp: numberWords_def split: if_splits)

lemma trim_Cons: "\<not> is_ws c \<Longrightarrow> trim (c # cs) = c # rev (dropWhile is_ws (rev cs))"
  by (simp add: trim_def dropWhile_append)

lemma length_trim: "length (trim s) \<le> length s"
proof -
  have "length (trim s) \<le> length (dropWhile is_ws s)"
    unfolding trim_def using length_dropWhile_le [of is_ws "rev (dropWhile is_ws s)"] by simp
  also have "\<dots> \<le> length s" by (rule length_dropWhile_le)
  finally show ?thesis .
qed

lemma toNumber_letter:
  assumes "c \<in> set ''zotfsenha''"
  shows "toNumber (c # cs) = NaN"
proof -
  have ws: "\<not> is_ws c" using assms by (auto simp: is_ws_def)
  have dg: "\<not> is_digit c" using assms by (auto simp: is_digit_def)
  have ch: "c \<noteq> CHR ''0''" "c \<noteq> CHR ''-''" "c \<noteq> CHR ''+''" "c \<noteq> CHR ''.''" "c \<noteq> CHR ''I''"
    using assms by auto
  have r: "radix_literal (c # rev (dropWhile is_ws (rev cs))) = None"
    using ch by (simp add: radix_literal_def Let_def split: list.split)
  have u: "unsigned_decimal (c # rev (dropWhile is_ws (rev cs))) = None"
    using dg ch by (simp add: unsigned_decimal_def Let_def)
  have d: "str_decimal (c # rev (dropWhile is_ws (rev cs))) = NaN"
    using ch by (simp add: str_decimal_def u)
  show ?thesis
    by (simp add: toNumber_def trim_Cons [OF ws] r d)
qed

lemma normalize_words_exact:
  assumes "\<forall>t\<in>set (split_sep (toLowerCase (trim s))). recognized t" and "length s < 2 ^ 32"
  shows "normalizeToNumberOrString (JStr s)
         = NumV (Fin (of_int (word_total (token_values (split_sep (toLowerCase (trim s)))) 0 0)))"
proof -
  define str where "str = toLowerCase (trim s)"
  obtain t ts where parts: "split_sep str = t # ts"
    using split_sep_nonempty [of str] by (cases "split_sep str") auto
  have rt: "recognized t" using assms(1) parts by (simp add: str_def)
  have t: "t \<noteq> []" "hd t \<in> set ''zotfsenha''" using recognized_hd [OF rt] by auto
  have s: "str \<noteq> []" "hd str = hd t" using split_sep_hd [OF parts t(1)] by auto
  have "str = hd t # tl str" using s by (metis list.collapse)
  then have nan: "toNumber str = NaN"
    using toNumber_letter [OF t(2), of "tl str"] by simp
  have "length str \<le> length s" using length_trim [of s] by (simp add: str_def toLowerCase_def)
  then have "int (length (split_sep str)) \<le> int (length s) + 1"
    using length_split_sep [of str] by linarith
  moreover have "int (length s) < 2 ^ 32" using assms(2) by (simp flip: of_nat_less_iff)
  ultimately have bound: "0 + 1000 * (0 + 1) + 101000 * int (length (split_sep str)) < 2 ^ 53"
    by simp
  obtain T' S' where ps: "parse_parts (split_sep str) (NumV (Fin (of_int 0))) (NumV (Fin (of_int 0)))
                   = (NumV (Fin (of_int T')), NumV (Fin (of_int S')), True)"
      and tot: "T' + S' = word_total (token_values (split_sep str)) 0 0"
      and rng: "0 \<le> T'" "0 \<le> S'" "T' + S' < 2 ^ 53"
    using parse_parts_words [OF _ _ _ bound] assms(1) unfolding str_def by blast
  have fin: "js_plus (NumV (Fin (of_int T'))) (NumV (Fin (of_int S'))) = NumV (Fin (of_int (T' + S')))"
    using rng by (simp add: js_plus_def js_add_int)
  have "normalizeToNumberOrString (JStr s) = js_plus (NumV (Fin (of_int T'))) (NumV (Fin (of_int S')))"
    using ps nan t(1) unfolding normalizeToNumberOrString_def
    by (simp add: to_string_def Let_def parts flip: str_def)
  then show ?thesis unfolding fin tot str_def .
qed

lemma normalize_fallback:
  assumes "toNumber (toLowerCase (trim s)) = NaN \<or> toLowerCase (trim s) = []"
    and "\<exists>t\<in>set (split_sep (toLowerCase (trim s))). t \<noteq> ''and'' \<and> lookup_numberWords t = None"
  shows "normalizeToNumberOrString (JStr s) = StrV (toLowerCase (trim s))"
proof -
  define str where "str = toLowerCase (trim s)"
  have "snd (snd (parse_parts (split_sep str) (NumV (Fin 0)) (NumV (Fin 0)))) = False"
    using assms(2) unfolding str_def by (rule parse_parts_unknown)
  then show ?thesis
    using assms(1) unfolding normalizeToNumberOrString_def
    by (auto simp: to_string_def Let_def split: prod.splits simp flip: str_def)
qed


text \<open>
  Claim C1. A phrase of number words separated by white space or hyphens is read with an
  accumulator and a running subtotal as the specification describes (\<open>word_total\<close> over the
  values of the tokens, \<^verbatim>\<open>and\<close> skipped), and when every token is recognised the result is
  the number accumulator plus subtotal. (The sums are exact for every string shorter than
  \<open>2^32\<close> characters.) Hence \<^verbatim>\<open>"eight"\<close> and \<^verbatim>\<open>"8"\<close> give 8, \<^verbatim>\<open>"twenty one"\<close> gives 21,
  \<^verbatim>\<open>"one hundred five"\<close> gives 105, and \<^verbatim>\<open>"Paris"\<close> gives the string \<^verbatim>\<open>"paris"\<close>.
\<close>

theorem normalize_number_words:
  "((\<forall>t\<in>set (split_sep (toLowerCase (trim s))). recognized t) \<and> length s < 2 ^ 32 \<longrightarrow>
      normalizeToNumberOrString (JStr s)
      = NumV (Fin (of_int (word_total (token_values (split_sep (toLowerCase (trim s)))) 0 0)))) \<and>
   normalizeToNumberOrString (JStr ''eight'') = NumV (Fin 8) \<and>
   normalizeToNumberOrString (JStr ''8'') = NumV (Fin 8) \<and>
   normalizeToNumberOrString (JStr ''twenty one'') = NumV (Fin 21) \<and>
   normalizeToNumberOrString (JStr ''one hundred five'') = NumV (Fin 105) \<and>
   normalizeToNumberOrString (JStr ''Paris'') = StrV ''paris''"
proof -
  have "normalizeToNumberOrString (JStr ''eight'') = NumV (Fin 8)" by code_simp
  moreover have "normalizeToNumberOrString (JStr ''8'') = NumV (Fin 8)" by code_simp
  moreover have "normalizeToNumberOrString (JStr ''twenty one'') = NumV (Fin 21)" by code_simp
  moreover have "normalizeToNumberOrString (JStr ''one hundred five'') = NumV (Fin 105)" by code_simp
  moreover have "normalizeToNumberOrString (JStr ''Paris'') = StrV ''paris''" by code_simp
  ultimately show ?thesis using normalize_words_exact [of s] by blast
qed

theorem normalize_number_words_witness:
  "list_all recognized (split_sep (toLowerCase (trim ''Two thousand and twenty-one''))) \<and>
   length ''Two thousand and twenty-one'' < 2 ^ 32 \<and>
   word_total [2, 1000, 20, 1] 0 0 = 2021 \<and>
   normalizeToNumberOrString (JStr ''Two thousand and twenty-one'') = NumV (Fin 2021)"
proof -
  have p: "split_sep (toLowerCase (trim ''Two thousand and twenty-one''))
           = [''two'', ''thousand'', ''and'', ''twenty'', ''one'']"
    by code_simp
  have r: "\<forall>t\<in>set [''two'', ''thousand'', ''and'', ''twenty'', ''one'']. recognized t"
    by (simp add: recognized_def numberWords_def)
  have v: "token_values [''two'', ''thousand'', ''and'', ''twenty'', ''one''] = [2, 1000, 20, 1]"
    by (simp add: token_values_def numberWords_def)
  have l: "length ''Two thousand and twenty-one'' < 2 ^ 32" by simp
  show ?thesis
    using normalize_number_words [of "''Two thousand and twenty-one''"] r l
    unfolding p v by (simp add: list_all_iff)
qed

text \<open>
  Claim C6. An input with a token that is neither \<^verbatim>\<open>and\<close> nor a recognised number word is to
  come back whole, trimmed and lower-cased, as a string. The loop does so for every token the
  lookup \<^verbatim>\<open>numberWords[part]\<close> does not find (\<open>normalize_fallback\<close>; \<^verbatim>\<open>"twenty dollars"\<close> stays
  \<^verbatim>\<open>"twenty dollars"\<close>). But the lookup also finds what \<^verbatim>\<open>Object.prototype\<close> provides, so the
  test \<^verbatim>\<open>val !== undefined\<close> lets the token \<^verbatim>\<open>constructor\<close> through although it is no number
  word: the sums turn into string concatenation (shown with the function text of V8) and the
  result is neither the input nor a number; a following \<^verbatim>\<open>hundred\<close> makes it \<open>NaN\<close>. There the
  code departs from the claim.
\<close>

theorem normalize_inherited_token:
  "''constructor'' \<in> set (split_sep (toLowerCase (trim ''constructor''))) \<and>
   ''constructor'' \<noteq> ''and'' \<and> map_of numberWords ''constructor'' = None \<and>
   toNumber (toLowerCase (trim ''constructor'')) = NaN \<and>
   normalizeToNumberOrString (JStr ''constructor'') = StrV ''00function Object() { [native code] }'' \<and>
   normalizeToNumberOrString (JStr ''twenty constructor'') = StrV ''020function Object() { [native code] }'' \<and>
   normalizeToNumberOrString (JStr ''constructor hundred'') = NumV NaN \<and>
   normalizeToNumberOrString (JStr ''twenty dollars'') = StrV ''twenty dollars''"
  by code_simp

subsection \<open>Answer matching\<close>

lemma strict_eq_iff: "strict_eq a b \<longleftrightarrow> a = b \<and> a \<noteq> NumV NaN"
  by (cases a; cases b) (auto simp: strict_eq_def)

text \<open>
  Claim C7. For a checkbox question with a non-empty expected answer, a submitted sequence
  of selected options is judged correct exactly when the expected answer is one of its
  members; selecting more options than the expected one does no harm.
\<close>

theorem checkbox_correct_iff_member:
  "(qtype q = ''checkbox'' \<and> correctAnswer q = Some e \<and> e \<noteq> [] \<longrightarrow>
      (checkAnswer q (JArr xs) \<longleftrightarrow> e \<in> set xs)) \<and>
   checkAnswer ex_checkbox (JArr [''A'', ''B'', ''C'']) \<and>
   \<not> checkAnswer ex_checkbox (JArr [''A'', ''C''])"
  by (simp add: checkAnswer_def truthy_def has_correctAnswer_def ex_checkbox_def)

theorem checkbox_correct_iff_member_witness:
  "qtype ex_checkbox = ''checkbox'' \<and> correctAnswer ex_checkbox = Some ''B'' \<and> ''B'' \<noteq> [] \<and>
   ''B'' \<in> set [''C'', ''B''] \<and> checkAnswer ex_checkbox (JArr [''C'', ''B''])"
  using checkbox_correct_iff_member [of ex_checkbox "''B''" "[''C'', ''B'']"]
  by (simp add: ex_checkbox_def)

text \<open>
  Claim C10. Whatever the question, a falsy answer value (the number 0, the empty string,
  \<^verbatim>\<open>null\<close>, \<^verbatim>\<open>undefined\<close>) is judged incorrect before any matching by type takes place.
  In particular the number 0 is incorrect for a short-answer question that expects
  \<^verbatim>\<open>"0"\<close>, although both sides normalise to the number 0.
\<close>

theorem falsy_answer_incorrect:
  "(\<not> truthy v \<longrightarrow> \<not> checkAnswer q v) \<and>
   \<not> truthy (JNum (Fin 0)) \<and> \<not> truthy (JStr []) \<and> \<not> truthy JNull \<and> \<not> truthy JUndefined \<and>
   \<not> checkAnswer (ex_short ''0'') (JNum (Fin 0)) \<and>
   normalizeToNumberOrString (JNum (Fin 0)) = NumV (Fin 0) \<and>
   normalizeToNumberOrString (JStr ''0'') = NumV (Fin 0)"
proof -
  have "normalizeToNumberOrString (JNum (Fin 0)) = NumV (Fin 0)" by code_simp
  moreover have "normalizeToNumberOrString (JStr ''0'') = NumV (Fin 0)" by code_simp
  ultimately show ?thesis by (simp add: checkAnswer_def truthy_def)
qed

theorem falsy_answer_incorrect_witness:
  "\<not> truthy (JNum (Fin 0)) \<and> \<not> checkAnswer (ex_short ''0'') (JNum (Fin 0)) \<and>
   strict_eq (normalizeToNumberOrString (JNum (Fin 0))) (normalizeToNumberOrString (JStr ''0''))"
  using falsy_answer_incorrect [of "JNum (Fin 0)" "ex_short ''0''"]
  by (simp add: strict_eq_def)

text \<open>
  Claim C2. For a short-answer question with a non-empty expected answer and a non-empty
  (truthy) submitted answer, the answer is correct exactly when the two normalised values
  are equal as values of the same type: the same number or the same string (a number and a
  string are never equal, and the number \<open>NaN\<close>, like every binary64 \<open>NaN\<close>, equals nothing).
  With the expected answer \<^verbatim>\<open>"8"\<close> the answers \<^verbatim>\<open>"8"\<close>, \<^verbatim>\<open>"Eight"\<close>, \<^verbatim>\<open>" eight "\<close> and \<^verbatim>\<open>"08"\<close>
  are all correct; \<^verbatim>\<open>"9"\<close> and \<^verbatim>\<open>"ate"\<close> are not.
\<close>

theorem short_answer_correct_iff:
  "(qtype q = ''short_answer'' \<and> correctAnswer q = Some e \<and> e \<noteq> [] \<and> truthy a \<longrightarrow>
      (checkAnswer q a \<longleftrightarrow>
       normalizeToNumberOrString a = normalizeToNumberOrString (JStr e) \<and>
       normalizeToNumberOrString a \<noteq> NumV NaN)) \<and>
   checkAnswer (ex_short ''8'') (JStr ''8'') \<and> checkAnswer (ex_short ''8'') (JStr ''Eight'') \<and>
   checkAnswer (ex_short ''8'') (JStr '' eight '') \<and> checkAnswer (ex_short ''8'') (JStr ''08'') \<and>
   \<not> checkAnswer (ex_short ''8'') (JStr ''9'') \<and> \<not> checkAnswer (ex_short ''8'') (JStr ''ate'')"
proof -
  have g: "checkAnswer q a \<longleftrightarrow>
           normalizeToNumberOrString a = normalizeToNumberOrString (JStr e) \<and>
           normalizeToNumberOrString a \<noteq> NumV NaN"
    if "qtype q = ''short_answer''" and "correctAnswer q = Some e" and "e \<noteq> []" and "truthy a"
    for q e a
    using that by (simp add: checkAnswer_def has_correctAnswer_def strict_eq_iff)
  have h: "qtype (ex_short ''8'') = ''short_answer''" "correctAnswer (ex_short ''8'') = Some ''8''"
      "''8'' \<noteq> []"
    by (simp_all add: ex_short_def)
  have n: "normalizeToNumberOrString (JStr ''8'') = NumV (Fin 8)"
      "normalizeToNumberOrString (JStr ''Eight'') = NumV (Fin 8)"
      "normalizeToNumberOrString (JStr '' eight '') = NumV (Fin 8)"
      "normalizeToNumberOrString (JStr ''08'') = NumV (Fin 8)"
      "normalizeToNumberOrString (JStr ''9'') = NumV (Fin 9)"
      "normalizeToNumberOrString (JStr ''ate'') = StrV ''ate''"
    by code_simp+
  have t: "truthy (JStr ''8'')" "truthy (JStr ''Eight'')" "truthy (JStr '' eight '')"
      "truthy (JStr ''08'')" "truthy (JStr ''9'')" "truthy (JStr ''ate'')"
    by (simp_all add: truthy_def)
  show ?thesis
    using g [of q e a] g [OF h t(1)] g [OF h t(2)] g [OF h t(3)] g [OF h t(4)] g [OF h t(5)]
      g [OF h t(6)]
    by (simp add: n)
qed

theorem short_answer_correct_iff_witness:
  "qtype (ex_short ''8'') = ''short_answer'' \<and> correctAnswer (ex_short ''8'') = Some ''8'' \<and>
   ''8'' \<noteq> [] \<and> truthy (JStr ''8.0'') \<and>
   normalizeToNumberOrString (JStr ''8.0'') = NumV (Fin 8) \<and>
   normalizeToNumberOrString (JStr ''8'') = NumV (Fin 8) \<and>
   checkAnswer (ex_short ''8'') (JStr ''8.0'')"
proof -
  have n: "normalizeToNumberOrString (JStr ''8.0'') = NumV (Fin 8)"
      "normalizeToNumberOrString (JStr ''8'') = NumV (Fin 8)"
    by code_simp+
  show ?thesis
    using short_answer_correct_iff [of "ex_short ''8''" "''8''" "JStr ''8.0''"]
    by (simp add: n ex_short_def truthy_def)
qed

subsection \<open>Filtering by score\<close>

lemma js_lt_Fin [simp]: "js_lt (Fin a) (Fin b) \<longleftrightarrow> a < b"
  by (simp add: js_lt_def)

lemma js_gt_Fin [simp]: "js_gt (Fin a) (Fin b) \<longleftrightarrow> b < a"
  by (simp add: js_gt_def)

lemma of_nat_less_of_int_rat: "(of_nat n :: rat) < of_int k \<longleftrightarrow> int n < k"
proof -
  have "(of_nat n :: rat) = of_int (int n)" by simp
  then show ?thesis by (simp only: of_int_less_iff)
qed

lemma of_int_less_of_nat_rat: "(of_int k :: rat) < of_nat n \<longleftrightarrow> k < int n"
proof -
  have "(of_nat n :: rat) = of_int (int n)" by simp
  then show ?thesis by (simp only: of_int_less_iff)
qed

lemma score_ok_iff:
  assumes "minScore f \<noteq> [] \<longrightarrow> parseInt (minScore f) = Fin (of_int lo)"
    and "maxScore f \<noteq> [] \<longrightarrow> parseInt (maxScore f) = Fin (of_int hi)"
  shows "score_ok fm f r \<longleftrightarrow>
         \<not> (minScore f \<noteq> [] \<and> int (fst (calculateScore fm r)) < lo) \<and>
         \<not> (maxScore f \<noteq> [] \<and> hi < int (fst (calculateScore fm r)))"
  using assms
  by (auto simp: score_ok_def Let_def of_nat_less_of_int_rat of_int_less_of_nat_rat)

lemma keep_response_iff:
  "keep_response h fm f r \<longleftrightarrow> date_ok h f r \<and> score_ok fm f r \<and> keyword_ok f r"
  by (simp add: keep_response_def)

lemma digit_value_char:
  assumes "0 \<le> d" and "d < 10"
  shows "digit_value 10 (char_of (48 + d :: int)) = Some (nat d)" and "is_digit (char_of (48 + d))"
proof -
  have m: "(48 + d) mod 256 = 48 + d" using assms by simp
  have c: "(of_char (char_of (48 + d)) :: int) = 48 + d" by (simp add: m)
  have "int (of_char (char_of (48 + d)) :: nat) = 48 + d"
    using c by (simp only: of_nat_of_char)
  then have "(of_char (char_of (48 + d)) :: nat) = nat (48 + d)" by linarith
  then have n: "(of_char (char_of (48 + d)) :: nat) = 48 + nat d" using assms by (simp add: nat_add_distrib)
  show "digit_value 10 (char_of (48 + d :: int)) = Some (nat d)"
    using assms by (simp add: digit_value_def n Let_def)
  show "is_digit (char_of (48 + d))" using assms by (simp add: is_digit_def n)
qed


lemma radix_val_snoc:
  "radix_val r (xs @ [c]) = radix_val r xs * int r + (case digit_value r c of Some d \<Rightarrow> int d | None \<Rightarrow> 0)"
  by (simp add: radix_val_def)

lemma radix_val_nonneg: "0 \<le> radix_val r xs"
  by (induction xs rule: rev_induct) (auto simp: radix_val_snoc split: option.split, simp add: radix_val_def)

lemma int_digits_props:
  "0 \<le> n \<Longrightarrow> int_digits n \<noteq> [] \<and> list_all is_digit (int_digits n) \<and> radix_val 10 (int_digits n) = n"
proof (induction n rule: int_digits.induct)
  case (1 n)
  show ?case
  proof (cases "n < 10")
    case True
    then show ?thesis
      using 1(2) digit_value_char [of n]
      by (subst (1 2 3) int_digits.simps) (simp add: radix_val_def)
  next
    case False
    then have ih: "int_digits (n div 10) \<noteq> [] \<and> list_all is_digit (int_digits (n div 10)) \<and>
                   radix_val 10 (int_digits (n div 10)) = n div 10"
      using 1 by simp
    have d: "digit_value 10 (char_of (48 + n mod 10)) = Some (nat (n mod 10))"
        "is_digit (char_of (48 + n mod 10))"
      using digit_value_char [of "n mod 10"] by simp_all
    show ?thesis
      using False ih d
      by (subst (1 2 3) int_digits.simps) (simp add: radix_val_snoc)
  qed
qed

lemma is_digit_facts:
  assumes "is_digit c"
  shows "\<not> is_ws c" "c \<noteq> CHR ''-''" "c \<noteq> CHR ''+''" "c \<noteq> CHR ''x''" "c \<noteq> CHR ''X''"
    "is_radix_digit 10 c"
  using assms by (auto simp: is_digit_def is_ws_def is_radix_digit_def digit_value_def Let_def)

lemma takeWhile_all: "list_all P xs \<Longrightarrow> takeWhile P xs = xs"
  by (induction xs) auto

lemma parseInt_digits:
  assumes "ds \<noteq> []" and "list_all is_digit ds" and "radix_val 10 ds < 2 ^ 53"
  shows "parseInt ds = Fin (of_int (radix_val 10 ds))"
    and "parseInt (CHR ''-'' # ds) = Fin (of_int (- radix_val 10 ds))"
proof -
  obtain c cs where ds: "ds = c # cs" using assms(1) by (cases ds) auto
  have c: "is_digit c" using assms(2) ds by simp
  have tw: "takeWhile (is_radix_digit 10) ds = ds"
    using assms(2) by (intro takeWhile_all) (auto simp: list_all_iff is_digit_facts(6))
  have pre: "(case ds of z # x # r \<Rightarrow> if z = CHR ''0'' \<and> (x = CHR ''x'' \<or> x = CHR ''X'') then (16, r) else (10, ds)
              | _ \<Rightarrow> (10::nat, ds)) = (10, ds)"
    using assms(2) by (auto simp: ds is_digit_def split: list.split)
  have f: "fl (of_int (radix_val 10 ds)) = Fin (of_int (radix_val 10 ds))"
    using assms(3) radix_val_nonneg [of 10 ds] by (intro fl_of_int) simp
  have dw: "dropWhile is_ws ds = ds" using is_digit_facts(1) [OF c] by (simp add: ds)
  have sg: "(case ds of c # r \<Rightarrow> if c = CHR ''-'' then (True, r) else if c = CHR ''+'' then (False, r) else (False, ds)
             | [] \<Rightarrow> (False, ds)) = (False, ds)"
    using is_digit_facts(2,3) [OF c] by (simp add: ds)
  show "parseInt ds = Fin (of_int (radix_val 10 ds))"
    unfolding parseInt_def Let_def dw sg prod.case pre tw f using assms(1) by simp
  have dw': "dropWhile is_ws (CHR ''-'' # ds) = CHR ''-'' # ds" by (simp add: is_ws_def)
  show "parseInt (CHR ''-'' # ds) = Fin (of_int (- radix_val 10 ds))"
    unfolding parseInt_def Let_def dw' using assms(1)
    by (simp add: pre tw f js_neg_def)
qed


lemma parseInt_score_field:
  assumes "\<bar>n\<bar> < 2 ^ 53"
  shows "score_field (Some n) \<noteq> []" and "parseInt (score_field (Some n)) = Fin (of_int n)"
proof -
  have p: "int_digits \<bar>n\<bar> \<noteq> []" "list_all is_digit (int_digits \<bar>n\<bar>)" "radix_val 10 (int_digits \<bar>n\<bar>) = \<bar>n\<bar>"
    using int_digits_props [of "\<bar>n\<bar>"] by simp_all
  have b: "radix_val 10 (int_digits \<bar>n\<bar>) < 2 ^ 53" using assms p(3) by simp
  show "score_field (Some n) \<noteq> []" using p(1) by (auto simp: score_field_def abs_if split: if_splits)
  show "parseInt (score_field (Some n)) = Fin (of_int n)"
  proof (cases "n < 0")
    case True
    then have "score_field (Some n) = CHR ''-'' # int_digits \<bar>n\<bar>" by (simp add: score_field_def)
    moreover have "radix_val 10 (int_digits (- n)) = - n" using p(3) True by simp
    ultimately show ?thesis using parseInt_digits(2) [OF p(1,2) b] True by simp
  next
    case False
    then have "score_field (Some n) = int_digits \<bar>n\<bar>" by (simp add: score_field_def)
    moreover have "radix_val 10 (int_digits n) = n" using p(3) False by simp
    ultimately show ?thesis using parseInt_digits(1) [OF p(1,2) b] False by simp
  qed
qed

lemma ex_scores:
  "calculateScore ex_form (ex_response ''Paris'') = (1, 1)"
  "calculateScore ex_form (ex_response ''Lyon'') = (0, 1)"
  by (simp_all add: calculateScore_def score_step_def ex_form_def ex_choice_def ex_response_def
      has_correctAnswer_def checkAnswer_def truthy_def answer_of_def)


lemma parseInt_examples:
  "parseInt ''0'' = Fin 0" "parseInt ''12'' = Fin 12" "parseInt ''-3'' = Fin (- 3)"
  "parseInt ''0.5'' = Fin 0" "parseInt ''1.9'' = Fin 1" "parseInt ''1.75'' = Fin 1"
  "parseInt ''1.5'' = Fin 1" "parseInt ''1e3'' = Fin 1" "parseInt ''.5'' = NaN" "parseInt [] = NaN"
  by code_simp+

lemma score_ok_cases:
  "score_ok fm f r \<longleftrightarrow>
     (minScore f = [] \<or>
        (case parseInt (minScore f) of
           Fin m \<Rightarrow> m \<le> of_nat (fst (calculateScore fm r)) | PosInf \<Rightarrow> False | _ \<Rightarrow> True)) \<and>
     (maxScore f = [] \<or>
        (case parseInt (maxScore f) of
           Fin m \<Rightarrow> of_nat (fst (calculateScore fm r)) \<le> m | NegInf \<Rightarrow> False | _ \<Rightarrow> True))"
  by (auto simp: score_ok_def Let_def js_lt_def js_gt_def split: jsnum.splits)

text \<open>
  Claim C3, as stated, fails: a bound is read with \<^verbatim>\<open>parseInt\<close>, that is, as an integer. With
  the minimum field set to \<^verbatim>\<open>0.5\<close> a response with 0 points falls below the set minimum and is
  kept all the same, because the bound read from the field is 0.
\<close>

theorem score_bounds_filter_counterexample:
  "minScore (ex_filters ''0.5'' []) = ''0.5'' \<and> toNumber ''0.5'' = Fin (1 / 2) \<and>
   fst (calculateScore ex_form (ex_response ''Lyon'')) = 0 \<and> (0::rat) < 1 / 2 \<and>
   filteredResponses ex_host (Some ex_form) [ex_response ''Lyon''] (ex_filters ''0.5'' [])
   = [ex_response ''Lyon'']"
proof -
  have "score_ok ex_form (ex_filters ''0.5'' []) (ex_response ''Lyon'')"
    by (simp add: score_ok_cases ex_filters_def parseInt_examples ex_scores)
  moreover have "date_ok ex_host (ex_filters ''0.5'' []) r" "keyword_ok (ex_filters ''0.5'' []) r" for r
    by (simp_all add: date_ok_def keyword_ok_def ex_filters_def)
  moreover have "toNumber ''0.5'' = Fin (1 / 2)" by code_simp
  ultimately show ?thesis
    by (simp add: filteredResponses_def keep_response_iff ex_scores ex_filters_def)
qed

text \<open>
  Claim C3, amended. A score bound is not set when its field is empty; a set bound is the
  integer \<^verbatim>\<open>parseInt\<close> reads from the field: an integer numeral (the numeral \<^verbatim>\<open>0\<close> included)
  stands for itself, a decimal such as \<^verbatim>\<open>1.9\<close> for its integer part, and a field that does
  not begin with an integer, such as \<^verbatim>\<open>.5\<close>, gives no bound. For every response list, form
  and filter state, the filter keeps, among the responses that pass the date and keyword
  tests, exactly those whose earned points are not below the minimum so read and not above
  the maximum so read; a bound that is not set excludes nothing, it is read neither as zero
  nor as a maximum.
\<close>

theorem score_bounds_filter:
  "filteredResponses h (Some fm) rs f =
     filter (\<lambda>r. date_ok h f r \<and> keyword_ok f r \<and>
        (minScore f = [] \<or>
           (case parseInt (minScore f) of
              Fin m \<Rightarrow> m \<le> of_nat (fst (calculateScore fm r)) | PosInf \<Rightarrow> False | _ \<Rightarrow> True)) \<and>
        (maxScore f = [] \<or>
           (case parseInt (maxScore f) of
              Fin m \<Rightarrow> of_nat (fst (calculateScore fm r)) \<le> m | NegInf \<Rightarrow> False | _ \<Rightarrow> True))) rs \<and>
   (\<bar>n\<bar> < 2 ^ 53 \<longrightarrow> score_field (Some n) \<noteq> [] \<and> parseInt (score_field (Some n)) = Fin (of_int n)) \<and>
   score_field (Some 0) = ''0'' \<and> score_field (Some 12) = ''12'' \<and> score_field (Some (- 3)) = ''-3'' \<and>
   parseInt ''0'' = Fin 0 \<and> parseInt ''1.9'' = Fin 1 \<and> parseInt ''.5'' = NaN"
proof -
  have "keep_response h fm f r \<longleftrightarrow>
        date_ok h f r \<and> keyword_ok f r \<and>
        (minScore f = [] \<or>
           (case parseInt (minScore f) of
              Fin m \<Rightarrow> m \<le> of_nat (fst (calculateScore fm r)) | PosInf \<Rightarrow> False | _ \<Rightarrow> True)) \<and>
        (maxScore f = [] \<or>
           (case parseInt (maxScore f) of
              Fin m \<Rightarrow> of_nat (fst (calculateScore fm r)) \<le> m | NegInf \<Rightarrow> False | _ \<Rightarrow> True))" for r
    unfolding keep_response_iff score_ok_cases by blast
  then have "filter (keep_response h fm f) rs =
     filter (\<lambda>r. date_ok h f r \<and> keyword_ok f r \<and>
        (minScore f = [] \<or>
           (case parseInt (minScore f) of
              Fin m \<Rightarrow> m \<le> of_nat (fst (calculateScore fm r)) | PosInf \<Rightarrow> False | _ \<Rightarrow> True)) \<and>
        (maxScore f = [] \<or>
           (case parseInt (maxScore f) of
              Fin m \<Rightarrow> of_nat (fst (calculateScore fm r)) \<le> m | NegInf \<Rightarrow> False | _ \<Rightarrow> True))) rs"
    by (intro filter_cong) auto
  moreover have "score_field (Some 0) = ''0''" "score_field (Some 12) = ''12''"
      "score_field (Some (- 3)) = ''-3''"
    by code_simp+
  ultimately show ?thesis
    using parseInt_score_field [of n]
    by (simp add: filteredResponses_def parseInt_examples)
qed

theorem score_bounds_filter_witness:
  "\<bar>0::int\<bar> < 2 ^ 53 \<and> maxScore (ex_filters [] ''0'') = score_field (Some 0) \<and>
   parseInt (maxScore (ex_filters [] ''0'')) = Fin 0 \<and>
   fst (calculateScore ex_form (ex_response ''Paris'')) = 1 \<and>
   fst (calculateScore ex_form (ex_response ''Lyon'')) = 0 \<and>
   filteredResponses ex_host (Some ex_form) [ex_response ''Paris'', ex_response ''Lyon''] (ex_filters [] ''0'')
   = [ex_response ''Lyon'']"
proof -
  have d: "date_ok ex_host (ex_filters [] ''0'') r" "keyword_ok (ex_filters [] ''0'') r" for r
    by (simp_all add: date_ok_def keyword_ok_def ex_filters_def)
  have m: "minScore (ex_filters [] ''0'') = []" "maxScore (ex_filters [] ''0'') = ''0''"
    by (simp_all add: ex_filters_def)
  show ?thesis
    using score_bounds_filter [of ex_host ex_form "[ex_response ''Paris'', ex_response ''Lyon'']"
        "ex_filters [] ''0''" 0]
    by (simp add: d m ex_scores)
qed

text \<open>
  Claim C5, as stated, fails, for the same reason: with the minimum field set to \<^verbatim>\<open>1.75\<close> and
  the maximum field set to \<^verbatim>\<open>1.5\<close> both bounds are set and the minimum exceeds the maximum,
  yet both are read as 1 and a response with 1 point is kept.
\<close>

theorem inverted_bounds_empty_counterexample:
  "minScore (ex_filters ''1.75'' ''1.5'') = ''1.75'' \<and> maxScore (ex_filters ''1.75'' ''1.5'') = ''1.5'' \<and>
   toNumber ''1.75'' = Fin (7 / 4) \<and> toNumber ''1.5'' = Fin (3 / 2) \<and> (3 / 2 :: rat) < 7 / 4 \<and>
   filteredResponses ex_host (Some ex_form) [ex_response ''Paris'', ex_response ''Lyon'']
     (ex_filters ''1.75'' ''1.5'') = [ex_response ''Paris'']"
proof -
  have "score_ok ex_form (ex_filters ''1.75'' ''1.5'') (ex_response ''Paris'')"
      "\<not> score_ok ex_form (ex_filters ''1.75'' ''1.5'') (ex_response ''Lyon'')"
    by (simp_all add: score_ok_cases ex_filters_def parseInt_examples ex_scores)
  moreover have "date_ok ex_host (ex_filters ''1.75'' ''1.5'') r"
      "keyword_ok (ex_filters ''1.75'' ''1.5'') r" for r
    by (simp_all add: date_ok_def keyword_ok_def ex_filters_def)
  moreover have "toNumber ''1.75'' = Fin (7 / 4)" "toNumber ''1.5'' = Fin (3 / 2)" by code_simp+
  ultimately show ?thesis
    by (simp add: filteredResponses_def keep_response_iff ex_filters_def)
qed

text \<open>
  Claim C5, amended. When both score bounds are set and the integer read from the minimum
  field exceeds the integer read from the maximum field (as it does when both fields hold
  integer numerals and the minimum is the larger one), the filter returns the empty list, for
  every response list and form; nothing is validated and nothing is raised.
\<close>

theorem inverted_bounds_empty:
  "(parseInt (minScore f) = Fin lo \<and> parseInt (maxScore f) = Fin hi \<and> hi < lo \<longrightarrow>
      filteredResponses h selectedForm rs f = []) \<and>
   (minScore f = score_field (Some a) \<and> maxScore f = score_field (Some b) \<and> b < a \<and>
    \<bar>a\<bar> < 2 ^ 53 \<and> \<bar>b\<bar> < 2 ^ 53 \<longrightarrow>
      filteredResponses h selectedForm rs f = [])"
proof -
  have g: "filteredResponses h selectedForm rs f = []"
    if "parseInt (minScore f) = Fin lo" and "parseInt (maxScore f) = Fin hi" and "hi < lo" for lo hi
  proof (cases selectedForm)
    case None
    then show ?thesis by (simp add: filteredResponses_def)
  next
    case (Some fm)
    have ne: "minScore f \<noteq> []" "maxScore f \<noteq> []"
      using that(1,2) by (auto simp: parseInt_examples)
    have "\<not> keep_response h fm f r" for r
      unfolding keep_response_iff score_ok_cases using ne that by auto
    then show ?thesis using Some by (simp add: filteredResponses_def)
  qed
  have "filteredResponses h selectedForm rs f = []"
    if "minScore f = score_field (Some a)" and "maxScore f = score_field (Some b)" and "b < a"
      and "\<bar>a\<bar> < 2 ^ 53" and "\<bar>b\<bar> < 2 ^ 53"
    using that parseInt_score_field(2) [of a] parseInt_score_field(2) [of b]
    by (intro g [of "of_int a" "of_int b"]) simp_all
  then show ?thesis using g by blast
qed

theorem inverted_bounds_empty_witness:
  "minScore (ex_filters ''1'' ''0'') = score_field (Some 1) \<and>
   maxScore (ex_filters ''1'' ''0'') = score_field (Some 0) \<and>
   (0::int) < 1 \<and> \<bar>1::int\<bar> < 2 ^ 53 \<and> \<bar>0::int\<bar> < 2 ^ 53 \<and>
   parseInt ''1'' = Fin 1 \<and> parseInt ''0'' = Fin 0 \<and>
   filteredResponses ex_host (Some ex_form) [ex_response ''Paris'', ex_response ''Lyon''] (ex_filters ''1'' ''0'') = []"
proof -
  have a: "minScore (ex_filters ''1'' ''0'') = score_field (Some 1)"
    by code_simp
  have b: "maxScore (ex_filters ''1'' ''0'') = score_field (Some 0)"
    by code_simp
  have p: "parseInt ''1'' = Fin 1" "parseInt ''0'' = Fin 0" by code_simp+
  show ?thesis
    using a b p inverted_bounds_empty [of "ex_filters ''1'' ''0''" 1 0 ex_host "Some ex_form"
        "[ex_response ''Paris'', ex_response ''Lyon'']" 1 0]
    by simp
qed

subsection \<open>Pass rate\<close>

text \<open>The test \<^verbatim>\<open>(score/total) >= 0.5\<close> is decided exactly although the quotient is rounded:
  rounding never moves a quotient of two counts across one half.\<close>

lemma pow2_powi: "pow2 e = 2 powi e"
  by (simp add: pow2_def power_int_def power_one_over inverse_eq_divide)

lemma powi_less_mono: "(2::rat) powi a < 2 powi b \<Longrightarrow> a < b"
  using power_int_increasing [of b a "2::rat"] by (cases "a < b") auto

lemma powi_le_mono: "(2::rat) powi a \<le> 2 powi b \<Longrightarrow> a \<le> b"
  using power_int_strict_increasing [of b a "2::rat"] by (cases "a \<le> b") auto

lemma bitlen_powi:
  assumes "0 < n"
  shows "(2::rat) powi (bitlen n - 1) \<le> of_int n" and "(of_int n :: rat) < 2 powi (bitlen n)"
proof -
  have b: "1 \<le> bitlen n" using assms bitlen_eq_zero_iff [of n] bitlen_nonneg [of n] by linarith
  have "(2::int) ^ nat (bitlen n - 1) \<le> n" "n < 2 ^ nat (bitlen n)"
    using bitlen_bounds [OF assms] by simp_all
  then have "(of_int ((2::int) ^ nat (bitlen n - 1)) :: rat) \<le> of_int n"
      "(of_int n :: rat) < of_int ((2::int) ^ nat (bitlen n))"
    by (simp_all only: of_int_le_iff of_int_less_iff)
  then show "(2::rat) powi (bitlen n - 1) \<le> of_int n" "(of_int n :: rat) < 2 powi (bitlen n)"
    using b by (simp_all add: power_int_def)
qed

lemma ilog2_bounds:
  assumes "0 < q"
  shows "2 powi (ilog2 q) \<le> q" and "q < 2 powi (ilog2 q + 1)"
proof -
  obtain n d where nd: "quotient_of q = (n, d)" by (cases "quotient_of q")
  have d: "0 < d" using quotient_of_denom_pos [OF nd] .
  have q: "q = of_int n / of_int d" using quotient_of_div [OF nd] .
  have n: "0 < n" using assms d unfolding q by (simp add: zero_less_divide_iff)
  define k where "k = bitlen n - bitlen d"
  have lo: "2 powi (k - 1) \<le> q"
  proof -
    have "(2::rat) powi (k - 1) = 2 powi (bitlen n - 1) / 2 powi (bitlen d)"
      unfolding k_def by (simp add: power_int_diff [symmetric] algebra_simps)
    also have "\<dots> \<le> of_int n / 2 powi (bitlen d)"
      using bitlen_powi(1) [OF n] by (intro divide_right_mono) auto
    also have "\<dots> \<le> of_int n / of_int d"
      using bitlen_powi(2) [OF d] n d by (intro divide_left_mono) auto
    finally show ?thesis unfolding q .
  qed
  have hi: "q < 2 powi (k + 1)"
  proof -
    have "q < 2 powi (bitlen n) / of_int d"
      unfolding q using bitlen_powi(2) [OF n] d by (intro divide_strict_right_mono) auto
    also have "\<dots> \<le> 2 powi (bitlen n) / 2 powi (bitlen d - 1)"
      using bitlen_powi(1) [OF d] d by (intro divide_left_mono) auto
    also have "\<dots> = 2 powi (k + 1)"
      unfolding k_def by (simp add: power_int_diff [symmetric] algebra_simps)
    finally show ?thesis .
  qed
  have il: "ilog2 q = (if 2 powi k \<le> q then k else k - 1)"
    by (simp add: ilog2_def nd k_def pow2_powi)
  show "2 powi (ilog2 q) \<le> q" using lo by (simp add: il)
  show "q < 2 powi (ilog2 q + 1)" using hi by (auto simp: il)
qed

lemma round_half_even_bounds:
  "\<lfloor>x\<rfloor> \<le> round_half_even x" "round_half_even x \<le> \<lfloor>x\<rfloor> + 1"
  by (simp_all add: round_half_even_def Let_def)

lemma round_half_even_ge: "of_int N \<le> x \<Longrightarrow> N \<le> round_half_even x"
  using round_half_even_bounds(1) [of x] by (meson le_floor_iff order_trans)

lemma round_half_even_le: "x < of_int N \<Longrightarrow> round_half_even x \<le> N"
proof -
  assume "x < of_int N"
  then have "\<lfloor>x\<rfloor> < N" by (simp add: floor_less_iff)
  then show ?thesis using round_half_even_bounds(2) [of x] by linarith
qed

lemma round_half_even_less: "x < of_int N - 1 / 2 \<Longrightarrow> round_half_even x < N"
proof -
  assume a: "x < of_int N - 1 / 2"
  then have "x < of_int N" by simp
  then have f: "\<lfloor>x\<rfloor> < N" by (simp add: floor_less_iff)
  show ?thesis
  proof (cases "\<lfloor>x\<rfloor> = N - 1")
    case True
    then have "x - of_int \<lfloor>x\<rfloor> < 1 / 2" using a by simp
    then show ?thesis using True by (simp add: round_half_even_def Let_def)
  next
    case False
    then show ?thesis using f round_half_even_bounds(2) [of x] by linarith
  qed
qed


lemma fl_ge_half:
  assumes "1 / 2 \<le> q" and "q \<le> 1"
  shows "\<exists>v. fl q = Fin v \<and> 1 / 2 \<le> v"
proof -
  have q0: "0 < q" using assms(1) by simp
  define k where "k = ilog2 q"
  have lo: "2 powi k \<le> q" and hi: "q < 2 powi (k + 1)"
    using ilog2_bounds [OF q0] by (simp_all add: k_def)
  have "(2::rat) powi k \<le> 2 powi 0" using lo assms(2) by simp
  then have k0: "k \<le> 0" by (rule powi_le_mono)
  have "(2::rat) powi (- 1) < 2 powi (k + 1)" using hi assms(1) by (simp add: power_int_minus)
  then have "- 1 < k + 1" by (rule powi_less_mono)
  then have k1: "- 1 \<le> k" by simp
  have e: "max (ilog2 q - 52) (- 1074) = k - 52" using k1 by (simp add: k_def)
  define m where "m = round_half_even (q / pow2 (k - 52))"
  have "(2::rat) powi 52 = 2 powi k / 2 powi (k - 52)"
    using power_int_diff [of "2::rat" k "k - 52"] by simp
  also have "\<dots> \<le> q / 2 powi (k - 52)" using lo by (intro divide_right_mono) auto
  finally have "of_int (2 ^ 52) \<le> q / pow2 (k - 52)" by (simp add: pow2_powi)
  then have m: "2 ^ 52 \<le> m" unfolding m_def by (rule round_half_even_ge)
  have "(2::rat) powi (- 1) \<le> 2 powi k" using k1 by (intro power_int_increasing) auto
  also have "\<dots> = 2 powi 52 * 2 powi (k - 52)" using power_int_add [of "2::rat" 52 "k - 52"] by simp
  also have "\<dots> \<le> of_int m * 2 powi (k - 52)"
  proof -
    have "(of_int (2 ^ 52) :: rat) \<le> of_int m" using m by (simp only: of_int_le_iff)
    then have "(2::rat) ^ 52 \<le> of_int m" by simp
    then show ?thesis by (intro mult_right_mono) auto
  qed
  finally have v: "1 / 2 \<le> of_int m * pow2 (k - 52)" by (simp add: pow2_powi power_int_minus)
  have "fl q = Fin (of_int m * pow2 (k - 52))"
    using q0 k0 by (simp add: fl_def fl_pos_def e Let_def m_def)
  then show ?thesis using v by simp
qed

lemma fl_less_half:
  assumes "0 \<le> q" and "q * 2 ^ 54 < 2 ^ 53 - 1 / 2"
  shows "\<exists>v. fl q = Fin v \<and> v < 1 / 2"
proof (cases "q = 0")
  case True
  then show ?thesis by (simp add: fl_def)
next
  case False
  then have q0: "0 < q" using assms(1) by simp
  have qh: "q < 1 / 2" using assms(2) by simp
  define k where "k = ilog2 q"
  have lo: "2 powi k \<le> q" and hi: "q < 2 powi (k + 1)"
    using ilog2_bounds [OF q0] by (simp_all add: k_def)
  have "(2::rat) powi k < 2 powi (- 1)" using lo qh by (simp add: power_int_minus)
  then have k2: "k \<le> - 2" using powi_less_mono [of k "- 1"] by simp
  define e where "e = max (k - 52) (- 1074)"
  have e54: "e \<le> - 54" and ek: "k - 52 \<le> e" using k2 by (simp_all add: e_def)
  define m where "m = round_half_even (q / pow2 e)"
  have ee: "max (ilog2 q - 52) (- 1074) = e" by (simp add: e_def k_def)
  have fl: "fl q = Fin (of_int m * pow2 e)"
    using q0 e54 by (simp add: fl_def fl_pos_def Let_def ee m_def)
  have "of_int m * pow2 e < 1 / 2"
  proof (cases "e = - 54")
    case True
    have "q / pow2 e = q * 2 ^ 54" by (simp add: True pow2_def)
    then have "q / pow2 e < of_int (2 ^ 53) - 1 / 2" using assms(2) by simp
    then have "m < 2 ^ 53" unfolding m_def by (rule round_half_even_less)
    then have "m \<le> 2 ^ 53 - 1" by simp
    then have "(of_int m :: rat) \<le> of_int (2 ^ 53 - 1)" by (simp only: of_int_le_iff)
    then have "(of_int m :: rat) * pow2 e \<le> of_int (2 ^ 53 - 1) * pow2 e"
      by (intro mult_right_mono) (auto simp: pow2_def)
    also have "\<dots> < 1 / 2" by (simp add: True pow2_def)
    finally show ?thesis .
  next
    case False
    then have e55: "e \<le> - 55" using e54 by simp
    have "q / 2 powi e < 2 powi (k + 1) / 2 powi e" using hi by (intro divide_strict_right_mono) auto
    also have "\<dots> = 2 powi (k + 1 - e)" using power_int_diff [of "2::rat" "k + 1" e] by simp
    also have "\<dots> \<le> 2 powi 53" using ek by (intro power_int_increasing) auto
    finally have "q / pow2 e < of_int (2 ^ 53)" by (simp add: pow2_powi)
    then have "m \<le> 2 ^ 53" unfolding m_def by (rule round_half_even_le)
    then have "(of_int m :: rat) \<le> of_int (2 ^ 53)" by (simp only: of_int_le_iff)
    then have "(of_int m :: rat) * 2 powi e \<le> of_int (2 ^ 53) * 2 powi e"
      by (intro mult_right_mono) auto
    also have "\<dots> \<le> of_int (2 ^ 53) * 2 powi (- 55)"
      using e55 by (intro mult_left_mono power_int_increasing) auto
    also have "\<dots> < 1 / 2" by (simp add: power_int_minus)
    finally show ?thesis by (simp add: pow2_powi)
  qed
  then show ?thesis using fl by simp
qed

lemma score_step_le: "fst acc \<le> snd acc \<Longrightarrow> fst (score_step r acc q) \<le> snd (score_step r acc q)"
  by (cases acc) (simp add: score_step_def)

lemma score_step_total: "snd (score_step r acc q) \<le> snd acc + 1"
  by (cases acc) (simp add: score_step_def)

lemma calculateScore_bounds:
  "fst (calculateScore fm r) \<le> snd (calculateScore fm r)"
  "snd (calculateScore fm r) \<le> length (questions fm)"
proof -
  have "fst acc \<le> snd acc \<Longrightarrow> fst (foldl (score_step r) acc qs) \<le> snd (foldl (score_step r) acc qs)" for acc qs
    by (induction qs arbitrary: acc) (auto simp: score_step_le)
  then show "fst (calculateScore fm r) \<le> snd (calculateScore fm r)"
    by (simp add: calculateScore_def)
  have "snd (foldl (score_step r) acc qs) \<le> snd acc + length qs" for acc qs
  proof (induction qs arbitrary: acc)
    case Nil
    then show ?case by simp
  next
    case (Cons q qs)
    show ?case using Cons.IH [of "score_step r acc q"] score_step_total [of r acc q] by simp
  qed
  from this [of "(0, 0)" "questions fm"] show "snd (calculateScore fm r) \<le> length (questions fm)"
    by (simp add: calculateScore_def)
qed

lemma half_test_exact:
  fixes s t :: nat
  assumes "0 < t" and "s \<le> t" and "t < 2 ^ 53"
  shows "js_ge (js_div (Fin (of_nat s)) (Fin (of_nat t))) (Fin (1 / 2)) \<longleftrightarrow> t \<le> 2 * s"
proof -
  define q :: rat where "q = of_nat s / of_nat t"
  have d: "js_div (Fin (of_nat s)) (Fin (of_nat t)) = fl q"
    using assms(1) by (simp add: js_div_def js_is_inf_def q_def)
  have t0: "(0::rat) < of_nat t" using assms(1) by simp
  show ?thesis
  proof (cases "t \<le> 2 * s")
    case True
    then have "(of_nat t :: rat) \<le> of_nat (2 * s)" by (simp only: of_nat_le_iff)
    then have "(of_nat t :: rat) \<le> 2 * of_nat s" by simp
    then have "1 / 2 \<le> q" using t0 by (simp add: q_def field_simps)
    moreover have "q \<le> 1" using assms(2) t0 by (simp add: q_def)
    ultimately obtain v where "fl q = Fin v" "1 / 2 \<le> v" using fl_ge_half by blast
    then show ?thesis using True by (simp add: d)
  next
    case False
    then have "2 * s + 1 \<le> t" by simp
    then have "(of_nat (2 * s + 1) :: rat) \<le> of_nat t" by (simp only: of_nat_le_iff)
    then have "(2 * of_nat s + 1 :: rat) \<le> of_nat t" by simp
    then have qs: "q \<le> 1 / 2 - 1 / (2 * of_nat t)" using t0 by (simp add: q_def field_simps)
    have "(of_nat t :: rat) < of_nat (2 ^ 53)" using assms(3) by (simp only: of_nat_less_iff)
    then have "(of_nat t :: rat) < 2 ^ 53" by simp
    then have "1 / 2 < 2 ^ 53 / (of_nat t :: rat)" using t0 by (simp add: field_simps)
    moreover have "q * 2 ^ 54 \<le> (1 / 2 - 1 / (2 * of_nat t)) * 2 ^ 54"
      using qs by (intro mult_right_mono) auto
    moreover have "(1 / 2 - 1 / (2 * of_nat t)) * 2 ^ 54 = 2 ^ 53 - 2 ^ 53 / (of_nat t :: rat)"
      by (simp add: field_simps)
    ultimately have "q * 2 ^ 54 < 2 ^ 53 - 1 / 2" by linarith
    moreover have "0 \<le> q" by (simp add: q_def)
    ultimately obtain v where "fl q = Fin v" "v < 1 / 2" using fl_less_half by blast
    then show ?thesis using False by (simp add: d)
  qed
qed

lemma passes_iff:
  assumes "length (questions fm) < 2 ^ 53"
  shows "passes fm r \<longleftrightarrow>
         0 < snd (calculateScore fm r) \<and> snd (calculateScore fm r) \<le> 2 * fst (calculateScore fm r)"
proof (cases "0 < snd (calculateScore fm r)")
  case True
  have "snd (calculateScore fm r) < 2 ^ 53"
    using calculateScore_bounds(2) [of fm r] assms by linarith
  then show ?thesis
    using True half_test_exact [OF True calculateScore_bounds(1)]
    by (cases "calculateScore fm r") (simp add: passes_def)
next
  case False
  then show ?thesis by (cases "calculateScore fm r") (simp add: passes_def)
qed

lemma foldl_tally_passing:
  "passingCount (foldl (tally_response fm) t rs) = passingCount t + length (filter (passes fm) rs)"
  by (induction rs arbitrary: t) (auto simp: tally_response_def)

lemma foldl_tally_score:
  "totalScore (foldl (tally_response fm) t rs) = totalScore t + sum_list (map (\<lambda>r. fst (calculateScore fm r)) rs)"
  by (induction rs arbitrary: t) (auto simp: tally_response_def)

lemma passingRate_eq:
  "rs \<noteq> [] \<Longrightarrow>
   map_option passingRate (getAnalytics (Some fm) rs) = Some (percent (length (filter (passes fm) rs)) (length rs))"
  by (simp add: getAnalytics_def Let_def foldl_tally_passing)

lemma passes_zero_gradable: "snd (calculateScore fm r) = 0 \<Longrightarrow> \<not> passes fm r"
  by (auto simp: passes_def split: prod.splits)

lemma ex_quiz_scores:
  "calculateScore ex_quiz (ex_sheet ''two'' ''4'' ''Paris'' [''2''] ''Oslo'') = (5, 5)"
  "calculateScore ex_quiz (ex_sheet ''2'' ''four'' ''Paris'' [''4''] ''Bergen'') = (3, 5)"
  "calculateScore ex_quiz (ex_sheet ''2'' ''5'' ''Lyon'' [''2'', ''4''] ''Bergen'') = (2, 5)"
  "calculateScore ex_quiz (ex_sheet ''3'' '''' ''Lyon'' [] ''Bergen'') = (0, 5)"
  by code_simp+

lemma ex_quiz_passes:
  "passes ex_quiz (ex_sheet ''two'' ''4'' ''Paris'' [''2''] ''Oslo'')"
  "passes ex_quiz (ex_sheet ''2'' ''four'' ''Paris'' [''4''] ''Bergen'')"
  "\<not> passes ex_quiz (ex_sheet ''2'' ''5'' ''Lyon'' [''2'', ''4''] ''Bergen'')"
  "\<not> passes ex_quiz (ex_sheet ''3'' '''' ''Lyon'' [] ''Bergen'')"
  unfolding passes_def ex_quiz_scores by code_simp+

lemma percent_2_of_4: "percent 2 4 = Fin 50"
  by code_simp

lemma pass_rate_four_responses:
  "map_option passingRate
     (getAnalytics (Some ex_quiz)
        [ex_sheet ''two'' ''4'' ''Paris'' [''2''] ''Oslo'', ex_sheet ''2'' ''four'' ''Paris'' [''4''] ''Bergen'',
         ex_sheet ''2'' ''5'' ''Lyon'' [''2'', ''4''] ''Bergen'', ex_sheet ''3'' '''' ''Lyon'' [] ''Bergen''])
   = Some (Fin 50)"
  (is "map_option passingRate (getAnalytics (Some ex_quiz) ?rs) = _")
proof -
  have p: "length (filter (passes ex_quiz) ?rs) = 2" by (simp add: ex_quiz_passes)
  have l: "length ?rs = 4" by simp
  have n: "?rs \<noteq> []" by simp
  show ?thesis unfolding passingRate_eq [OF n] p l percent_2_of_4 ..
qed

lemma percent_23_of_40: "percent 23 40 = Fin 57"
  by code_simp

lemma ex_form_passes: "passes ex_form (ex_response ''Paris'')" "\<not> passes ex_form (ex_response ''Lyon'')"
  unfolding passes_def ex_scores by code_simp+


text \<open>
  Claim C8. The report counts as passing exactly the responses with
  \<^verbatim>\<open>total > 0 && score/total >= 0.5\<close> (\<open>passingRate_eq\<close>), which is the case exactly when there
  is a gradable question and at least half of the gradable points were earned (\<open>passes_iff\<close>;
  never with zero gradable questions, \<open>passes_zero_gradable\<close>), and four responses at 100%,
  60%, 40% and 0% give the pass rate 50 (\<open>pass_rate_four_responses\<close>). The reported rate is,
  however, not always \<open>round(100 * passingCount / totalResponses)\<close>: the code computes
  \<^verbatim>\<open>Math.round((passingCount / dataSet.length) * 100)\<close> in binary64, and with 23 passing
  responses out of 40 the quotient 0.575 is rounded down, the product is 57.49999999999999,
  and the report says 57 where \<open>round(57.5)\<close> is 58.
\<close>

theorem pass_rate_23_of_40:
  "map_option passingRate
     (getAnalytics (Some ex_form) (replicate 23 (ex_response ''Paris'') @ replicate 17 (ex_response ''Lyon'')))
   = Some (Fin 57) \<and>
   \<lfloor>(100 * 23 / 40 :: rat) + 1 / 2\<rfloor> = 58"
proof -
  let ?rs = "replicate 23 (ex_response ''Paris'') @ replicate 17 (ex_response ''Lyon'')"
  have p: "length (filter (passes ex_form) ?rs) = 23" by (simp add: ex_form_passes)
  have l: "length ?rs = 40" by simp
  have n: "?rs \<noteq> []" by simp
  have r: "\<lfloor>(100 * 23 / 40 :: rat) + 1 / 2\<rfloor> = 58" by code_simp
  show ?thesis unfolding passingRate_eq [OF n] p l percent_23_of_40 using r by simp
qed


subsection \<open>Notable answers\<close>

lemma first_seen_snoc:
  "first_seen (ks @ [k]) = (if k \<in> set ks then first_seen ks else first_seen ks @ [k])"
  by (induction ks) auto

lemma set_first_seen [simp]: "set (first_seen ks) = set ks"
  by (induction ks) auto

lemma distinct_first_seen [simp]: "distinct (first_seen ks)"
  by (induction ks) (auto simp: distinct_removeAll)

lemma map_of_tabulate:
  "map_of (map (\<lambda>k. (k, f k)) ks) k = (if k \<in> set ks then Some (f k) else None)"
  by (induction ks) auto

lemma set_prop_absent:
  "k \<notin> fst ` set ob \<Longrightarrow> set_prop k v ob = ob @ [(k, v)]"
  by (induction ob) auto

lemma set_prop_tabulate:
  "k \<in> set ks \<Longrightarrow> distinct ks \<Longrightarrow>
   set_prop k v (map (\<lambda>k'. (k', f k')) ks) = map (\<lambda>k'. (k', if k' = k then v else f k')) ks"
  by (induction ks) auto

lemma bump_count_tabulate:
  assumes "map_of object_prototype k = None"
  shows "bump_count (map (\<lambda>k'. (k', Count (count_list ks k'))) (first_seen ks)) k
         = map (\<lambda>k'. (k', Count (count_list (ks @ [k]) k'))) (first_seen (ks @ [k]))"
proof -
  have np: "k \<noteq> ''__proto__''" using assms by (auto simp: object_prototype_def)
  show ?thesis
  proof (cases "k \<in> set ks")
    case True
    have "set_prop k (Count (count_list ks k + 1)) (map (\<lambda>k'. (k', Count (count_list ks k'))) (first_seen ks))
          = map (\<lambda>k'. (k', if k' = k then Count (count_list ks k + 1) else Count (count_list ks k'))) (first_seen ks)"
      using True by (intro set_prop_tabulate) simp_all
    then show ?thesis
      using True np by (simp add: bump_count_def map_of_tabulate first_seen_snoc)
  next
    case False
    then have "k \<notin> fst ` set (map (\<lambda>k'. (k', Count (count_list ks k'))) (first_seen ks))"
      by (auto simp: image_iff)
    then show ?thesis
      using False np assms by (auto simp: bump_count_def map_of_tabulate first_seen_snoc set_prop_absent)
  qed
qed

lemma foldl_bump_count:
  "\<forall>k\<in>set ks. map_of object_prototype k = None \<Longrightarrow>
   foldl bump_count [] ks = map (\<lambda>k. (k, Count (count_list ks k))) (first_seen ks)"
proof (induction ks rule: rev_induct)
  case Nil
  then show ?case by simp
next
  case (snoc k ks)
  then show ?case using bump_count_tabulate [of k ks] by simp
qed

lemma insert_sorted_counts:
  "is_count (snd x) \<Longrightarrow> \<forall>y\<in>set ys. is_count (snd y) \<Longrightarrow>
   insert_sorted by_count_desc x ys = insort_key neg_count x ys"
  by (induction ys)
     (auto simp: by_count_desc_def neg_count_def count_of_def is_count_def split: cval.splits)

lemma js_sort_counts:
  "\<forall>y\<in>set xs. is_count (snd y) \<Longrightarrow> js_sort by_count_desc xs = sort_key neg_count xs"
proof (induction xs)
  case Nil
  then show ?case by (simp add: js_sort_def)
next
  case (Cons x xs)
  then have "js_sort by_count_desc xs = sort_key neg_count xs" by simp
  moreover have "\<forall>y\<in>set (sort_key neg_count xs). is_count (snd y)" using Cons.prems by simp
  ultimately show ?case
    using Cons.prems insert_sorted_counts [of x "sort_key neg_count xs"]
    by (simp add: js_sort_def)
qed


lemma map_of_set_prop: "map_of (set_prop k v ob) k' = (if k' = k then Some v else map_of ob k')"
  by (induction ob) auto

lemma cnt_count_answer:
  "cnt (count_answer q' S a) k =
     (if k = qid q' then map_option (\<lambda>c. bump_count c (count_key q' a)) (cnt S k) else cnt S k)"
  by (auto simp: cnt_def count_answer_def map_of_set_prop split: option.splits)

lemma cnt_foldl_count_answer:
  "cnt (foldl (count_answer q') S as) k =
     (if k = qid q' then map_option (\<lambda>c. foldl bump_count c (map (count_key q') as)) (cnt S k) else cnt S k)"
proof (induction as arbitrary: S)
  case Nil
  then show ?case by (simp add: option.map_ident)
next
  case (Cons a as)
  show ?case
    by (simp add: Cons.IH cnt_count_answer option.map_comp comp_def)
qed

lemma cnt_count_question:
  "cnt (count_question r S q') k =
     (if k = qid q'
      then map_option (\<lambda>c. foldl bump_count c (map (count_key q') (answersToCount (answer_of r (qid q'))))) (cnt S k)
      else cnt S k)"
  by (simp add: count_question_def cnt_foldl_count_answer)

lemma cnt_foldl_questions_other:
  "k \<notin> qid ` set qs \<Longrightarrow> cnt (foldl (count_question r) S qs) k = cnt S k"
  by (induction qs arbitrary: S) (auto simp: cnt_count_question)

lemma cnt_foldl_questions:
  assumes "distinct (map qid qs)" and "q \<in> set qs"
  shows "cnt (foldl (count_question r) S qs) (qid q) =
         map_option (\<lambda>c. foldl bump_count c (map (count_key q) (answersToCount (answer_of r (qid q)))))
           (cnt S (qid q))"
  using assms
proof (induction qs arbitrary: S)
  case Nil
  then show ?case by simp
next
  case (Cons q' qs)
  show ?case
  proof (cases "q' = q")
    case True
    then have "qid q \<notin> qid ` set qs" using Cons.prems(1) by auto
    then show ?thesis using True by (simp add: cnt_foldl_questions_other cnt_count_question)
  next
    case False
    then have in_qs: "q \<in> set qs" using Cons.prems(2) by simp
    have "qid q' \<notin> qid ` set qs" using Cons.prems(1) by simp
    then have "qid q \<noteq> qid q'" using in_qs by (metis imageI)
    then show ?thesis
      using Cons.IH [OF _ in_qs] Cons.prems(1) by (simp add: cnt_count_question)
  qed
qed

lemma keys_for_Cons:
  "keys_for q (r # rs) = map (count_key q) (answersToCount (answer_of r (qid q))) @ keys_for q rs"
  by (simp add: keys_for_def)

lemma cnt_foldl_tally:
  assumes "distinct (map qid (questions fm))" and "q \<in> set (questions fm)"
  shows "cnt (questionStats (foldl (tally_response fm) t rs)) (qid q) =
         map_option (\<lambda>c. foldl bump_count c (keys_for q rs)) (cnt (questionStats t) (qid q))"
proof (induction rs arbitrary: t)
  case Nil
  then show ?case by (simp add: keys_for_def option.map_ident)
next
  case (Cons r rs)
  have qs: "questionStats (tally_response fm t r) = foldl (count_question r) (questionStats t) (questions fm)"
    by (simp add: tally_response_def)
  show ?case
    by (simp add: Cons.IH qs cnt_foldl_questions [OF assms] keys_for_Cons option.map_comp comp_def)
qed

lemma map_of_init:
  "map_of (foldl (\<lambda>stats q. set_prop (qid q) v stats) S qs) k =
     (if k \<in> qid ` set qs then Some v else map_of S k)"
  by (induction qs arbitrary: S) (auto simp: map_of_set_prop)

lemma cnt_init: "q \<in> set (questions fm) \<Longrightarrow> cnt (init_stats fm) (qid q) = Some []"
  by (simp add: cnt_def init_stats_def map_of_init)

lemma stats_counts:
  assumes "distinct (map qid (questions fm))" and "q \<in> set (questions fm)" and "rs \<noteq> []"
  shows "\<exists>rep st. getAnalytics (Some fm) rs = Some rep \<and> map_of (stats rep) (qid q) = Some st \<and>
           counts st = foldl bump_count [] (keys_for q rs)"
proof -
  define t where "t = foldl (tally_response fm) \<lparr>totalScore = 0, passingCount = 0, questionStats = init_stats fm\<rparr> rs"
  have "cnt (questionStats t) (qid q) = Some (foldl bump_count [] (keys_for q rs))"
    unfolding t_def by (simp add: cnt_foldl_tally [OF assms(1,2)] cnt_init [OF assms(2)])
  then obtain st where "map_of (questionStats t) (qid q) = Some st" "counts st = foldl bump_count [] (keys_for q rs)"
    by (auto simp: cnt_def)
  then show ?thesis
    using assms(3) by (simp add: getAnalytics_def Let_def flip: t_def)
qed

lemma insort_key_tabulate:
  "insort_key (\<lambda>p. g (fst p)) (k, f k) (map (\<lambda>k. (k, f k)) ys) = map (\<lambda>k. (k, f k)) (insort_key g k ys)"
  by (induction ys) auto

lemma sort_key_tabulate:
  "sort_key (\<lambda>p. g (fst p)) (map (\<lambda>k. (k, f k)) ks) = map (\<lambda>k. (k, f k)) (sort_key g ks)"
  by (induction ks) (auto simp: insort_key_tabulate)

lemma entries_tabulate:
  "entries (map (\<lambda>k. (k, f k)) ks) = map (\<lambda>k. (k, f k)) (enumeration_order ks)"
  by (simp add: entries_def enumeration_order_def filter_map comp_def sort_key_tabulate)


lemma neg_count_le: "neg_count x \<le> neg_count y \<longleftrightarrow> count_of y \<le> count_of x"
  by (simp add: neg_count_def)

lemma neg_count_eq: "neg_count p = - int c \<longleftrightarrow> count_of p = c"
  by (simp add: neg_count_def)

lemma notable_eq:
  assumes "q \<in> set (questions fm)" and "distinct (map qid (questions fm))" and "rs \<noteq> []"
    and "\<forall>k\<in>set (keys_for q rs). map_of object_prototype k = None"
  shows "notable fm rs q = Some (take 5 (sort_key neg_count (frequency_table q rs)))"
proof -
  obtain rep st where rep: "getAnalytics (Some fm) rs = Some rep" "map_of (stats rep) (qid q) = Some st"
      and c: "counts st = foldl bump_count [] (keys_for q rs)"
    using stats_counts [OF assms(2,1,3)] by blast
  have t: "counts st = map (\<lambda>k. (k, Count (count_list (keys_for q rs) k))) (first_seen (keys_for q rs))"
    unfolding c by (rule foldl_bump_count [OF assms(4)])
  have e: "entries (counts st) = frequency_table q rs"
    unfolding t frequency_table_def by (rule entries_tabulate)
  have "\<forall>y\<in>set (frequency_table q rs). is_count (snd y)"
    by (auto simp: frequency_table_def is_count_def)
  then have "js_sort by_count_desc (frequency_table q rs) = sort_key neg_count (frequency_table q rs)"
    by (rule js_sort_counts)
  then show ?thesis
    by (simp add: notable_def rep sortedAnswers_def e)
qed


text \<open>
  Claim C4, as stated, fails: when the answers \<^verbatim>\<open>"8"\<close> and \<^verbatim>\<open>"7"\<close> are given once each, in
  that order, to a short-answer question, the two keys have equal counts and \<^verbatim>\<open>8\<close> was met
  first, yet \<^verbatim>\<open>7\<close> is listed before \<^verbatim>\<open>8\<close>: \<^verbatim>\<open>Object.entries\<close> lists keys that are array indices
  in ascending numeric order, whatever the order of their creation.
\<close>

theorem notable_answers_order_counterexample:
  "first_seen (keys_for (ex_short ''8'') [ex_answer ''8'', ex_answer ''7'']) = [''8'', ''7''] \<and>
   count_list (keys_for (ex_short ''8'') [ex_answer ''8'', ex_answer ''7'']) ''8''
   = count_list (keys_for (ex_short ''8'') [ex_answer ''8'', ex_answer ''7'']) ''7'' \<and>
   notable ex_form8 [ex_answer ''8'', ex_answer ''7''] (ex_short ''8'')
   = Some [(''7'', Count 1), (''8'', Count 1)]"
  by code_simp


text \<open>
  Claim C4, amended. For a question of a form with distinct question ids and a non-empty
  response list whose counting keys are not names of properties inherited from
  \<^verbatim>\<open>Object.prototype\<close>, the notable answers are the first five entries of the frequency table
  sorted by descending count. The sort is stable and nothing else orders the entries:
  entries with equal counts keep the order in which the table lists its keys, which is the
  ascending numeric order for keys that are array indices, followed by the other keys in
  the order of their first occurrence. The counting keys are those of the answers as
  \<^verbatim>\<open>r.answers[q.id]\<close> reads them: for the question with id \<^verbatim>\<open>constructor\<close>, a response
  without an answer contributes the text of the inherited function as its key.
\<close>

theorem notable_answers_order:
  assumes "q \<in> set (questions fm)" and "distinct (map qid (questions fm))" and "rs \<noteq> []"
    and "\<forall>k\<in>set (keys_for q rs). map_of object_prototype k = None"
  shows "notable fm rs q = Some (take 5 (sort_key neg_count (frequency_table q rs))) \<and>
         sorted_wrt (\<lambda>x y. count_of y \<le> count_of x) (sort_key neg_count (frequency_table q rs)) \<and>
         (\<forall>c. filter (\<lambda>p. count_of p = c) (sort_key neg_count (frequency_table q rs))
              = filter (\<lambda>p. count_of p = c) (frequency_table q rs)) \<and>
         keys_for ex_constructor [ex_blank] = [''function Object() { [native code] }''] \<and>
         notable \<lparr>questions = [ex_constructor]\<rparr> [ex_blank] ex_constructor
         = Some [(''function Object() { [native code] }'', Count 1)]"
proof -
  have x: "keys_for ex_constructor [ex_blank] = [''function Object() { [native code] }'']"
      "notable \<lparr>questions = [ex_constructor]\<rparr> [ex_blank] ex_constructor
       = Some [(''function Object() { [native code] }'', Count 1)]"
    by code_simp+
  have "sorted (map neg_count (sort_key neg_count (frequency_table q rs)))" by (rule sorted_sort_key)
  then have s: "sorted_wrt (\<lambda>x y. count_of y \<le> count_of x) (sort_key neg_count (frequency_table q rs))"
    by (simp add: sorted_map neg_count_le)
  have "filter (\<lambda>p. count_of p = c) (sort_key neg_count (frequency_table q rs))
        = filter (\<lambda>p. count_of p = c) (frequency_table q rs)" for c
    using sort_key_stable [of neg_count "- int c" "frequency_table q rs"] by (simp add: neg_count_eq)
  then show ?thesis using notable_eq [OF assms] s x by blast
qed

theorem notable_answers_order_witness:
  "ex_short ''8'' \<in> set (questions ex_form8) \<and> distinct (map qid (questions ex_form8)) \<and>
   list_all (\<lambda>k. map_of object_prototype k = None)
     (keys_for (ex_short ''8'') [ex_answer ''nine'', ex_answer ''Oslo'', ex_answer ''8'', ex_answer ''7'', ex_answer ''eight'']) \<and>
   notable ex_form8 [ex_answer ''nine'', ex_answer ''Oslo'', ex_answer ''8'', ex_answer ''7'', ex_answer ''eight''] (ex_short ''8'')
   = Some [(''8'', Count 2), (''7'', Count 1), (''9'', Count 1), (''oslo'', Count 1)]"
proof -
  let ?rs = "[ex_answer ''nine'', ex_answer ''Oslo'', ex_answer ''8'', ex_answer ''7'', ex_answer ''eight'']"
  have k: "keys_for (ex_short ''8'') ?rs = [''9'', ''oslo'', ''8'', ''7'', ''8'']"
    by code_simp
  have a: "ex_short ''8'' \<in> set (questions ex_form8)" "distinct (map qid (questions ex_form8))" "?rs \<noteq> []"
    by (simp_all add: ex_form8_def)
  have p: "\<forall>k\<in>set (keys_for (ex_short ''8'') ?rs). map_of object_prototype k = None"
    unfolding k by code_simp
  have f: "take 5 (sort_key neg_count (frequency_table (ex_short ''8'') ?rs))
           = [(''8'', Count 2), (''7'', Count 1), (''9'', Count 1), (''oslo'', Count 1)]"
    unfolding frequency_table_def k by code_simp
  show ?thesis
    using a p notable_answers_order [OF a p] unfolding f by (simp add: list_all_iff)
qed


subsection \<open>Analytics of an empty cohort\<close>

text \<open>
  Claim C9. For every form, the analytics of an empty response list is no report at all
  (\<^verbatim>\<open>null\<close>), not a report with zero fields; nothing is divided by the number of responses.
\<close>

theorem getAnalytics_empty: "getAnalytics selectedForm [] = None"
  by (simp add: getAnalytics_def split: option.split)

end
